theory Spec2Isabelle
  imports Main
begin

section \<open>Python values\<close>

text \<open>
  A Python \<open>str\<close> is a sequence of Unicode code points, so it is modelled as a list of
  natural numbers (\<open>len\<close> is \<open>length\<close>, slicing is \<open>take\<close>/\<open>drop\<close>).  ASCII literals
  of the source are written \<open>S ''...''\<close>; other characters are given by code point.
  A raised exception is the left summand of a sum; it carries \<open>str(e)\<close>.
\<close>

type_synonym pystr = "nat list"

definition S :: "string \<Rightarrow> pystr" where
  "S s = map of_char s"

text \<open>\<open>str.isspace\<close> per character: the whitespace table of CPython.\<close>

definition py_isspace :: "nat \<Rightarrow> bool" where
  "py_isspace c \<longleftrightarrow>
     (9 \<le> c \<and> c \<le> 13) \<or> (28 \<le> c \<and> c \<le> 32) \<or> c = 133 \<or> c = 160 \<or> c = 5760 \<or>
     (8192 \<le> c \<and> c \<le> 8202) \<or> c = 8232 \<or> c = 8233 \<or> c = 8239 \<or> c = 8287 \<or> c = 12288"

definition lstrip :: "pystr \<Rightarrow> pystr" where
  "lstrip s = dropWhile py_isspace s"

definition rstrip :: "pystr \<Rightarrow> pystr" where
  "rstrip s = rev (dropWhile py_isspace (rev s))"

definition strip :: "pystr \<Rightarrow> pystr" where
  "strip s = rstrip (lstrip s)"

text \<open>\<open>s.lstrip(chars)\<close> and \<open>s.rstrip(chars)\<close> for a one-character argument.\<close>

definition lstrip_ch :: "nat \<Rightarrow> pystr \<Rightarrow> pystr" where
  "lstrip_ch c s = dropWhile (\<lambda>x. x = c) s"

definition rstrip_ch :: "nat \<Rightarrow> pystr \<Rightarrow> pystr" where
  "rstrip_ch c s = rev (dropWhile (\<lambda>x. x = c) (rev s))"

definition startswith :: "pystr \<Rightarrow> pystr \<Rightarrow> bool" where
  "startswith s p \<longleftrightarrow> take (length p) s = p"

definition removeprefix :: "pystr \<Rightarrow> pystr \<Rightarrow> pystr" where
  "removeprefix s p = (if startswith s p then drop (length p) s else s)"

text \<open>\<open>p in s\<close> for strings: \<open>p\<close> occurs in \<open>s\<close> as a contiguous substring.\<close>

fun py_in :: "pystr \<Rightarrow> pystr \<Rightarrow> bool" where
  "py_in p [] = (p = [])"
| "py_in p (c # cs) = (startswith (c # cs) p \<or> py_in p cs)"

text \<open>\<open>s.split(sep)\<close> for a one-character separator, as a split at every character
  satisfying \<open>P\<close>: empty pieces are kept, so the result has one more element than
  there are separators.\<close>

fun split_on :: "(nat \<Rightarrow> bool) \<Rightarrow> pystr \<Rightarrow> pystr list" where
  "split_on P [] = [[]]"
| "split_on P (c # cs) =
     (if P c then [] # split_on P cs
      else (case split_on P cs of [] \<Rightarrow> [[c]] | x # xs \<Rightarrow> (c # x) # xs))"

text \<open>\<open>str(n)\<close> for a non-negative integer, and the format \<open>{n:02d}\<close>.\<close>

function str_nat :: "nat \<Rightarrow> pystr" where
  "str_nat n = (if n < 10 then [48 + n] else str_nat (n div 10) @ [48 + n mod 10])"
  by pat_completeness auto
termination
  by (relation "measure id") auto

declare str_nat.simps [simp del]

definition fmt02 :: "nat \<Rightarrow> pystr" where
  "fmt02 n = (if n < 10 then 48 # str_nat n else str_nat n)"

text \<open>
  Functions of the Python standard library whose tables or platform rules lie outside
  the repository are parameters of the model: \<open>str.lower\<close>, \<open>str.isdigit\<close>, \<open>int()\<close> on a
  string that passed \<open>isdigit\<close> (it raises \<open>ValueError\<close> on digits such as a superscript
  two), \<open>pathlib\<close>'s join and \<open>.name\<close>, \<open>traceback.format_exc\<close>, and the tables of the
  \<open>re\<close> module: the characters \<open>\d\<close> and \<open>\w\<close> match, and which characters of a text a
  character of a pattern matches under \<open>re.IGNORECASE\<close>.
\<close>

record pyenv =
  str_lower :: "pystr \<Rightarrow> pystr"
  str_isdigit :: "pystr \<Rightarrow> bool"
  int_of_str :: "pystr \<Rightarrow> pystr + nat"
  path_join :: "pystr \<Rightarrow> pystr \<Rightarrow> pystr"
  path_name :: "pystr \<Rightarrow> pystr"
  format_exc :: "pystr \<Rightarrow> pystr"
  re_digit :: "nat \<Rightarrow> bool"
  re_word :: "nat \<Rightarrow> bool"
  re_ieq :: "nat \<Rightarrow> nat \<Rightarrow> bool"

section \<open>The browser\<close>

text \<open>
  Playwright is the environment.  Every call \<open>run_tests.py\<close> makes on it is a command;
  the browser answers a command in a state of the world \<open>'w\<close> with a reply and the next
  state.  \<open>Raised m\<close> is an exception whose \<open>str\<close> is \<open>m\<close>.  \<open>locator.first\<close> is the match
  of index 0, so \<open>Click sel i t\<close> is \<open>page.locator(sel).nth(i).click(timeout=t)\<close>; the
  other locator commands act on \<open>.first\<close>.  \<open>WaitLoad t\<close> is
  \<open>page.wait_for_load_state("networkidle", timeout=t)\<close> and \<open>Screenshot p\<close> is
  \<open>page.screenshot(path=p, full_page=True)\<close>.
\<close>

datatype cmd =
    Goto pystr
  | WaitLoad nat
  | Click pystr nat nat
  | Count pystr
  | WaitVisible pystr nat
  | Fill pystr pystr nat
  | SelectOption pystr pystr nat
  | Hover pystr nat
  | WaitTimeout nat
  | Evaluate pystr
  | Screenshot pystr
  | InnerText pystr nat
  | Url
  | Title
  | Launch bool
  | NewContext
  | SetDefaultTimeout nat
  | NewVideoContext pystr
  | NewPage bool
  | ClosePage
  | CloseVideoContext
  | NewestVideo pystr
  | Rename pystr pystr
  | CloseContext
  | CloseBrowser

datatype reply = Raised pystr | Done | Num nat | Str pystr

type_synonym 'w browser = "cmd \<Rightarrow> 'w \<Rightarrow> reply \<times> 'w"

text \<open>A computation in the world: it raises (\<open>Inl\<close>) or returns (\<open>Inr\<close>).\<close>

type_synonym ('a, 'w) io = "'w \<Rightarrow> (pystr + 'a) \<times> 'w"

definition ret :: "'a \<Rightarrow> ('a, 'w) io" where
  "ret x = (\<lambda>w. (Inr x, w))"

definition andthen :: "('a, 'w) io \<Rightarrow> ('a \<Rightarrow> ('b, 'w) io) \<Rightarrow> ('b, 'w) io" where
  "andthen m f = (\<lambda>w. case m w of (Inl e, w') \<Rightarrow> (Inl e, w') | (Inr x, w') \<Rightarrow> f x w')"

text \<open>A call whose return value the script ignores; a call that yields an integer; a
  call that yields a string.  Playwright fixes the type of each answer; a reply of
  another shape would make the script's next use of it raise \<open>TypeError\<close>.\<close>

definition call :: "'w browser \<Rightarrow> cmd \<Rightarrow> (unit, 'w) io" where
  "call b c = (\<lambda>w. case b c w of (Raised e, w') \<Rightarrow> (Inl e, w') | (_, w') \<Rightarrow> (Inr (), w'))"

definition call_num :: "'w browser \<Rightarrow> cmd \<Rightarrow> (nat, 'w) io" where
  "call_num b c = (\<lambda>w. case b c w of
       (Raised e, w') \<Rightarrow> (Inl e, w')
     | (Num n, w') \<Rightarrow> (Inr n, w')
     | (_, w') \<Rightarrow> (Inl (S ''TypeError''), w'))"

definition call_str :: "'w browser \<Rightarrow> cmd \<Rightarrow> (pystr, 'w) io" where
  "call_str b c = (\<lambda>w. case b c w of
       (Raised e, w') \<Rightarrow> (Inl e, w')
     | (Str s, w') \<Rightarrow> (Inr s, w')
     | (_, w') \<Rightarrow> (Inl (S ''TypeError''), w'))"

text \<open>A browser that also records every command it is given.\<close>

definition logged :: "'w browser \<Rightarrow> ('w \<times> cmd list) browser" where
  "logged b c = (\<lambda>(w, l). case b c w of (r, w') \<Rightarrow> (r, (w', l @ [c])))"

section \<open>run\_tests.py: the action executor\<close>

record step =
  s_action :: "pystr option"
  s_target :: "pystr option"
  s_value :: "pystr option"
  s_name :: "pystr option"

text \<open>A step is a JSON object; a field is \<open>None\<close> when the key is absent.
  \<open>d.get(k, default)\<close> is \<open>get_or\<close>.\<close>

definition get_or :: "'a option \<Rightarrow> 'a \<Rightarrow> 'a" where
  "get_or x d = (case x of None \<Rightarrow> d | Some v \<Rightarrow> v)"

record step_result =
  r_index :: nat
  r_action :: pystr
  r_target :: pystr
  r_value :: pystr
  r_status :: pystr
  r_screenshot :: "pystr option"
  r_error :: "pystr option"

definition HTML_TAGS :: "pystr list" where
  "HTML_TAGS = map S [''body'', ''html'', ''head'', ''main'', ''header'', ''footer'', ''nav'',
     ''section'', ''article'', ''div'', ''span'', ''a'', ''p'', ''ul'', ''li'',
     ''form'', ''input'', ''button'', ''select'', ''textarea'', ''table'',
     ''tr'', ''td'', ''th'', ''h1'', ''h2'', ''h3'', ''h4'', ''h5'', ''h6'', ''img'']"

definition selector_or_text :: "pyenv \<Rightarrow> pystr \<Rightarrow> pystr" where
  "selector_or_text E target =
     (if list_ex (startswith target)
           (map S [''text='', ''role='', ''css='', ''#'', ''.'', ''['', ''//'', ''xpath=''])
      then removeprefix target (S ''css='')
      else if str_lower E target \<in> set HTML_TAGS then target
      else if list_ex (\<lambda>c. c \<in> set (S ''#[].:>+~()'')) target then target
      else S ''text='' @ target)"

text \<open>The retry loop of \<open>click\<close>: \<open>for i in range(1, min(count, 5))\<close>, leaving at the
  first click that does not raise.\<close>

fun click_retry :: "'w browser \<Rightarrow> pystr \<Rightarrow> nat list \<Rightarrow> 'w \<Rightarrow> bool \<times> 'w" where
  "click_retry b sel [] w = (False, w)"
| "click_retry b sel (i # is) w =
     (case b (Click sel i 3000) w of
        (Raised e, w') \<Rightarrow> click_retry b sel is w'
      | (_, w') \<Rightarrow> (True, w'))"

definition do_click :: "pyenv \<Rightarrow> 'w browser \<Rightarrow> pystr \<Rightarrow> (unit, 'w) io" where
  "do_click E b target =
     (let sel = selector_or_text E target in
      andthen
        (\<lambda>w. case b (Click sel 0 10000) w of
           (Raised e, w1) \<Rightarrow>
             (case call_num b (Count sel) w1 of
                (Inl e', w2) \<Rightarrow> (Inl e', w2)
              | (Inr count, w2) \<Rightarrow>
                  (case click_retry b sel [1 ..< min count 5] w2 of
                     (True, w3) \<Rightarrow> (Inr (), w3)
                   | (False, w3) \<Rightarrow> (Inl e, w3)))
         | (_, w1) \<Rightarrow> (Inr (), w1))
        (\<lambda>_. call b (WaitLoad 8000)))"

text \<open>The selector loop of \<open>fill\<close>: a visibility probe and a fill per candidate; a
  candidate on which either raises is passed over.\<close>

fun fill_loop :: "'w browser \<Rightarrow> pystr \<Rightarrow> pystr list \<Rightarrow> 'w \<Rightarrow> bool \<times> 'w" where
  "fill_loop b val [] w = (False, w)"
| "fill_loop b val (sel # sels) w =
     (case andthen (call b (WaitVisible sel 1500)) (\<lambda>_. call b (Fill sel val 5000)) w of
        (Inl e, w') \<Rightarrow> fill_loop b val sels w'
      | (Inr _, w') \<Rightarrow> (True, w'))"

definition do_fill :: "pyenv \<Rightarrow> 'w browser \<Rightarrow> pystr \<Rightarrow> pystr \<Rightarrow> (unit, 'w) io" where
  "do_fill E b target val =
     (\<lambda>w. case fill_loop b val (map strip (split_on (\<lambda>c. c = 44) target)) w of
        (True, w') \<Rightarrow> (Inr (), w')
      | (False, w') \<Rightarrow> call b (Fill (selector_or_text E target) val 10000) w')"

text \<open>\<open>int(target) if str(target).isdigit() else d\<close>.\<close>

definition int_or :: "pyenv \<Rightarrow> pystr \<Rightarrow> nat \<Rightarrow> (nat, 'w) io" where
  "int_or E target d =
     (\<lambda>w. if str_isdigit E target then (int_of_str E target, w) else (Inr d, w))"

definition quote :: "pystr \<Rightarrow> pystr" where
  "quote s = [39] @ s @ [39]"

text \<open>
  The \<open>if\<close>/\<open>elif\<close> chain inside the \<open>try\<close> of \<open>execute_step\<close>.  It yields \<open>Some p\<close> when
  the branch returns from the function at once (only \<open>screenshot\<close> does, with the path
  it wrote) and \<open>None\<close> when control goes on to the screenshot after the chain.  An
  unknown action only prints a warning.
\<close>

definition dispatch ::
  "pyenv \<Rightarrow> 'w browser \<Rightarrow> pystr \<Rightarrow> pystr \<Rightarrow> pystr \<Rightarrow> pystr \<Rightarrow> pystr \<Rightarrow> (pystr option, 'w) io"
where
  "dispatch E b action target val name screenshot_dir =
     (if action = S ''goto'' then
        andthen (call b (Goto (if startswith target (S ''http'') then target else target)))
          (\<lambda>_. andthen (call b (WaitLoad 15000)) (\<lambda>_. ret None))
      else if action = S ''click'' then
        andthen (do_click E b target) (\<lambda>_. ret None)
      else if action = S ''fill'' then
        andthen (do_fill E b target val) (\<lambda>_. ret None)
      else if action = S ''select'' then
        andthen (call b (SelectOption (selector_or_text E target) val 10000)) (\<lambda>_. ret None)
      else if action = S ''hover'' then
        andthen (call b (Hover (selector_or_text E target) 10000)) (\<lambda>_. ret None)
      else if action = S ''wait'' then
        andthen (int_or E target 1000)
          (\<lambda>ms. andthen (call b (WaitTimeout ms)) (\<lambda>_. ret None))
      else if action = S ''scroll'' then
        andthen (int_or E target 500)
          (\<lambda>px. andthen (call b (Evaluate (S ''window.scrollBy(0, '' @ str_nat px @ S '')'')))
            (\<lambda>_. andthen (call b (WaitTimeout 500)) (\<lambda>_. ret None)))
      else if action = S ''screenshot'' then
        (let p = path_join E screenshot_dir (name @ S ''.png'') in
         andthen (call b (Screenshot p)) (\<lambda>_. ret (Some p)))
      else if action = S ''assert_visible'' then
        andthen (call b (WaitVisible (selector_or_text E target) 10000)) (\<lambda>_. ret None)
      else if action = S ''assert_text'' then
        andthen (call_str b (InnerText (selector_or_text E target) 10000))
          (\<lambda>actual. if py_in (str_lower E val) (str_lower E actual) then ret None
             else (\<lambda>w. (Inl (S ''Expected '' @ quote val @ S '' in '' @ quote actual), w)))
      else if action = S ''assert_url'' then
        andthen (call_str b Url)
          (\<lambda>current. if py_in target current then ret None
             else (\<lambda>w. (Inl (S ''Expected URL to contain '' @ quote target @ S '', got ''
                              @ quote current), w)))
      else if action = S ''assert_title'' then
        andthen (call_str b Title)
          (\<lambda>current. if py_in (str_lower E target) (str_lower E current) then ret None
             else (\<lambda>w. (Inl (S ''Expected title to contain '' @ quote target @ S '', got ''
                              @ quote current), w)))
      else ret None)"

definition step_file :: "pystr \<Rightarrow> nat \<Rightarrow> pystr \<Rightarrow> pystr" where
  "step_file tc_id step_idx suffix =
     tc_id @ S ''_step_'' @ fmt02 step_idx @ S ''_'' @ suffix"

text \<open>The whole \<open>try\<close> block: the chain, then the screenshot after a successful action.\<close>

definition try_block ::
  "pyenv \<Rightarrow> 'w browser \<Rightarrow> step \<Rightarrow> pystr \<Rightarrow> pystr \<Rightarrow> nat \<Rightarrow> (pystr, 'w) io"
where
  "try_block E b step screenshot_dir tc_id step_idx =
     (let action = get_or (s_action step) [];
          target = get_or (s_target step) [];
          val = get_or (s_value step) [];
          name = get_or (s_name step) (step_file tc_id step_idx action);
          screenshot_path = path_join E screenshot_dir (step_file tc_id step_idx action @ S ''.png'')
      in andthen (dispatch E b action target val name screenshot_dir)
           (\<lambda>early. case early of
              Some p \<Rightarrow> ret (path_name E p)
            | None \<Rightarrow> andthen (call b (Screenshot screenshot_path))
                        (\<lambda>_. ret (path_name E screenshot_path))))"

definition fail_path :: "pyenv \<Rightarrow> pystr \<Rightarrow> pystr \<Rightarrow> nat \<Rightarrow> pystr" where
  "fail_path E screenshot_dir tc_id step_idx =
     path_join E screenshot_dir (step_file tc_id step_idx (S ''FAIL.png''))"

definition execute_step ::
  "pyenv \<Rightarrow> 'w browser \<Rightarrow> step \<Rightarrow> pystr \<Rightarrow> pystr \<Rightarrow> nat \<Rightarrow> 'w \<Rightarrow> step_result \<times> 'w"
where
  "execute_step E b step screenshot_dir tc_id step_idx w =
     (let result = \<lparr> r_index = step_idx,
                     r_action = get_or (s_action step) [],
                     r_target = get_or (s_target step) [],
                     r_value = get_or (s_value step) [],
                     r_status = S ''passed'',
                     r_screenshot = None,
                     r_error = None \<rparr>
      in case try_block E b step screenshot_dir tc_id step_idx w of
           (Inr shot, w1) \<Rightarrow> (result\<lparr> r_screenshot := Some shot \<rparr>, w1)
         | (Inl e, w1) \<Rightarrow>
             (let failed = result\<lparr> r_status := S ''failed'', r_error := Some e \<rparr>;
                  fp = fail_path E screenshot_dir tc_id step_idx
              in case b (Screenshot fp) w1 of
                   (Raised e', w2) \<Rightarrow> (failed, w2)
                 | (_, w2) \<Rightarrow> (failed\<lparr> r_screenshot := Some (path_name E fp) \<rparr>, w2)))"

section \<open>run\_tests.py: the case runner\<close>

text \<open>
  A test case as \<open>run_test_case\<close> reads it: \<open>id\<close> through \<open>get\<close>, \<open>name\<close> by subscript
  (absent: \<open>KeyError\<close>), \<open>steps\<close> through \<open>get\<close> with the empty list as default (an absent
  key reads as \<open>[]\<close>).  The result carries no \<open>duration_seconds\<close>: it is a rounded
  difference of two clock readings, a floating-point value the claims do not speak of.
\<close>

record test_case =
  tc_id :: "pystr option"
  tc_name :: "pystr option"
  tc_steps :: "step list"

record case_result =
  cr_id :: pystr
  cr_name :: pystr
  cr_status :: pystr
  cr_steps :: "step_result list"
  cr_video :: "pystr option"
  cr_error :: "pystr option"

definition is_goto :: "step \<Rightarrow> bool" where
  "is_goto s \<longleftrightarrow> s_action s = Some (S ''goto'')"

text \<open>The body of the loop that builds \<open>resolved_steps\<close>; \<open>s2["target"]\<close> raises
  \<open>KeyError\<close> on a \<open>goto\<close> without a target.\<close>

definition resolve_step :: "pystr \<Rightarrow> step \<Rightarrow> pystr + step" where
  "resolve_step base_url s =
     (if is_goto s then
        (case s_target s of
           None \<Rightarrow> Inl (quote (S ''target''))
         | Some target \<Rightarrow>
             if startswith target (S ''http'') then Inr s
             else if startswith target (S ''/'') then
               Inr (s\<lparr> s_target := Some (rstrip_ch 47 base_url @ S ''/'' @ lstrip_ch 47 target) \<rparr>)
             else Inr (s\<lparr> s_target := Some (rstrip_ch 47 base_url @ S ''/'') \<rparr>))
      else Inr s)"

fun resolve_all :: "pystr \<Rightarrow> step list \<Rightarrow> pystr + step list" where
  "resolve_all base_url [] = Inr []"
| "resolve_all base_url (s # ss) =
     (case resolve_step base_url s of
        Inl e \<Rightarrow> Inl e
      | Inr s2 \<Rightarrow> (case resolve_all base_url ss of Inl e \<Rightarrow> Inl e | Inr r \<Rightarrow> Inr (s2 # r)))"

definition resolve_steps :: "pystr \<Rightarrow> step list \<Rightarrow> pystr + step list" where
  "resolve_steps base_url steps =
     (case resolve_all base_url steps of
        Inl e \<Rightarrow> Inl e
      | Inr r \<Rightarrow>
          Inr ((if \<not> list_ex is_goto steps \<and> base_url \<noteq> []
                then [\<lparr> s_action = Some (S ''goto''), s_target = Some base_url,
                        s_value = None, s_name = None \<rparr>]
                else []) @ r))"

text \<open>The two tuples of action names in the loop: the actions that are skipped once
  \<open>interaction_failed\<close> is set, and the actions whose failure sets it.\<close>

definition SKIPPED_ACTIONS :: "pystr list" where
  "SKIPPED_ACTIONS = map S [''click'', ''fill'', ''select'', ''hover'',
     ''assert_visible'', ''assert_text'', ''assert_url'', ''assert_title'']"

definition FAILING_ACTIONS :: "pystr list" where
  "FAILING_ACTIONS = map S [''click'', ''fill'', ''select'', ''hover'']"

record loop_state =
  step_results :: "step_result list"
  tc_status :: pystr
  tc_error :: "pystr option"
  interaction_failed :: bool

definition init_state :: loop_state where
  "init_state = \<lparr> step_results = [], tc_status = S ''passed'', tc_error = None,
                  interaction_failed = False \<rparr>"

definition skipped_result :: "nat \<Rightarrow> step \<Rightarrow> step_result" where
  "skipped_result idx step =
     \<lparr> r_index = idx, r_action = get_or (s_action step) [],
       r_target = get_or (s_target step) [], r_value = get_or (s_value step) [],
       r_status = S ''skipped'', r_screenshot = None,
       r_error = Some (S ''Skipped: prior step failed'') \<rparr>"

text \<open>\<open>not x\<close> for \<open>x\<close> that is \<open>None\<close> or a string.\<close>

definition falsy :: "pystr option \<Rightarrow> bool" where
  "falsy x \<longleftrightarrow> x = None \<or> x = Some []"

text \<open>What one iteration does to the local variables after \<open>execute_step\<close> returned
  \<open>r\<close> for a step whose action is \<open>action\<close>.\<close>

definition record_result :: "pystr \<Rightarrow> step_result \<Rightarrow> loop_state \<Rightarrow> loop_state" where
  "record_result action r st =
     (let st1 = st\<lparr> step_results := step_results st @ [r] \<rparr> in
      if r_status r = S ''failed'' then
        st1\<lparr> tc_status := S ''failed'',
             tc_error := (if falsy (tc_error st1) then r_error r else tc_error st1),
             interaction_failed := (action \<in> set FAILING_ACTIONS \<or> interaction_failed st1) \<rparr>
      else st1)"

text \<open>
  The \<open>for idx, step in enumerate(resolved_steps)\<close> loop, from index \<open>idx\<close> on.  It
  returns the local variables, the exception that left the loop if one did (the only
  one possible is the \<open>KeyError\<close> of \<open>step['action']\<close> in the progress message, on a step
  without an action), and the world.  Printing is not modelled.
\<close>

fun step_loop ::
  "pyenv \<Rightarrow> 'w browser \<Rightarrow> pystr \<Rightarrow> pystr \<Rightarrow> nat \<Rightarrow> step list \<Rightarrow> loop_state \<Rightarrow> 'w
     \<Rightarrow> loop_state \<times> pystr option \<times> 'w"
where
  "step_loop E b dir tid idx [] st w = (st, None, w)"
| "step_loop E b dir tid idx (step # rest) st w =
     (let action = get_or (s_action step) [] in
      if interaction_failed st \<and> action \<in> set SKIPPED_ACTIONS then
        step_loop E b dir tid (Suc idx) rest
          (st\<lparr> step_results := step_results st @ [skipped_result idx step] \<rparr>) w
      else if s_action step = None then (st, Some (quote (S ''action'')), w)
      else
        (case execute_step E b step dir tid idx w of
           (r, w') \<Rightarrow> step_loop E b dir tid (Suc idx) rest (record_result action r st) w'))"

text \<open>Opening the page: on a context of its own when a video is recorded.\<close>

definition open_page :: "'w browser \<Rightarrow> pystr \<Rightarrow> bool \<Rightarrow> (unit, 'w) io" where
  "open_page b video_dir record_video =
     (if record_video then andthen (call b (NewVideoContext video_dir)) (\<lambda>_. call b (NewPage True))
      else call b (NewPage False))"

text \<open>A call that yields a string or nothing: the newest \<open>*.webm\<close> of the video
  directory, \<open>videos[-1]\<close> after the sort, if there is one.\<close>

definition call_opt :: "'w browser \<Rightarrow> cmd \<Rightarrow> (pystr option, 'w) io" where
  "call_opt b c = (\<lambda>w. case b c w of
       (Raised e, w') \<Rightarrow> (Inl e, w')
     | (Str s, w') \<Rightarrow> (Inr (Some s), w')
     | (_, w') \<Rightarrow> (Inr None, w'))"

definition save_video :: "pyenv \<Rightarrow> 'w browser \<Rightarrow> pystr \<Rightarrow> pystr \<Rightarrow> bool \<Rightarrow> (pystr option, 'w) io" where
  "save_video E b video_dir tid record_video =
     (if record_video then
        andthen (call b CloseVideoContext)
          (\<lambda>_. andthen (call_opt b (NewestVideo video_dir))
            (\<lambda>newest. case newest of
               None \<Rightarrow> ret None
             | Some v \<Rightarrow>
                 (let final_path = path_join E video_dir (tid @ S ''.webm'') in
                  andthen (call b (Rename v final_path)) (\<lambda>_. ret (Some (path_name E final_path))))))
      else ret None)"

definition run_test_case ::
  "pyenv \<Rightarrow> 'w browser \<Rightarrow> test_case \<Rightarrow> pystr \<Rightarrow> pystr \<Rightarrow> pystr \<Rightarrow> bool \<Rightarrow> (case_result, 'w) io"
where
  "run_test_case E b tc base_url screenshot_dir video_dir record_video =
     (let tid = get_or (tc_id tc) (S ''TC-???'') in
      case tc_name tc of
        None \<Rightarrow> (\<lambda>w. (Inl (quote (S ''name'')), w))
      | Some name \<Rightarrow>
          andthen (open_page b video_dir record_video)
            (\<lambda>_. case resolve_steps base_url (tc_steps tc) of
               Inl e \<Rightarrow> (\<lambda>w. (Inl e, w))
             | Inr resolved_steps \<Rightarrow>
                 (\<lambda>w. case step_loop E b screenshot_dir tid 0 resolved_steps init_state w of
                    (st, exc, w1) \<Rightarrow>
                      (let st' = (case exc of
                                    None \<Rightarrow> st
                                  | Some e \<Rightarrow>
                                      st\<lparr> tc_status := S ''failed'',
                                          tc_error := (if falsy (tc_error st)
                                                       then Some (format_exc E e)
                                                       else tc_error st) \<rparr>)
                       in andthen (call b ClosePage)
                            (\<lambda>_. andthen (save_video E b video_dir tid record_video)
                              (\<lambda>video_file.
                                 ret \<lparr> cr_id = tid, cr_name = name, cr_status = tc_status st',
                                       cr_steps = step_results st', cr_video = video_file,
                                       cr_error = tc_error st' \<rparr>)) w1))))"

section \<open>run\_tests.py: the main runner\<close>

text \<open>
  \<open>main\<close> from the parsed arguments and the parsed \<open>test_cases.json\<close> on.  Of \<open>meta\<close> only
  \<open>base_url\<close> is read.  \<open>sys.exit(1)\<close> before the run is the left summand.  The summary
  carries the four counts; its duration and time stamps are clock readings.  Creating
  the output directories and writing \<open>results.json\<close> are file-system effects outside
  the model.
\<close>

record args =
  a_filter :: "pystr option"
  a_base_url :: pystr
  a_video :: bool
  a_headed :: bool
  a_timeout :: nat
  a_output_dir :: pystr

record payload =
  p_base_url :: "pystr option"
  p_test_cases :: "test_case list"

record summary =
  total :: nat
  passed :: nat
  failed :: nat
  skipped :: nat

record run_output =
  o_summary :: summary
  o_test_cases :: "case_result list"
  o_exit_code :: nat

text \<open>\<open>--filter\<close>: an absent or empty argument keeps every case.\<close>

definition apply_filter :: "pystr option \<Rightarrow> test_case list \<Rightarrow> test_case list" where
  "apply_filter f tcs =
     (if falsy f then tcs else filter (\<lambda>tc. tc_id tc = f) tcs)"

fun run_all ::
  "pyenv \<Rightarrow> 'w browser \<Rightarrow> pystr \<Rightarrow> pystr \<Rightarrow> pystr \<Rightarrow> bool \<Rightarrow> test_case list
     \<Rightarrow> (case_result list, 'w) io"
where
  "run_all E b base_url sdir vdir rv [] = ret []"
| "run_all E b base_url sdir vdir rv (tc # tcs) =
     andthen (run_test_case E b tc base_url sdir vdir rv)
       (\<lambda>r. andthen (run_all E b base_url sdir vdir rv tcs) (\<lambda>rs. ret (r # rs)))"

definition count_status :: "pystr \<Rightarrow> case_result list \<Rightarrow> nat" where
  "count_status s rs = length (filter (\<lambda>r. cr_status r = s) rs)"

definition build_summary :: "case_result list \<Rightarrow> summary" where
  "build_summary all_results =
     \<lparr> total = length all_results,
       passed = count_status (S ''passed'') all_results,
       failed = count_status (S ''failed'') all_results,
       skipped = count_status (S ''skipped'') all_results \<rparr>"

definition main :: "pyenv \<Rightarrow> 'w browser \<Rightarrow> args \<Rightarrow> payload \<Rightarrow> (run_output, 'w) io" where
  "main E b a p =
     (let test_cases = apply_filter (a_filter a) (p_test_cases p) in
      if \<not> falsy (a_filter a) \<and> test_cases = [] then (\<lambda>w. (Inl (S ''SystemExit: 1''), w))
      else
        (let base_url = (if a_base_url a \<noteq> [] then a_base_url a else get_or (p_base_url p) []);
             screenshot_dir = path_join E (a_output_dir a) (S ''screenshots'');
             video_dir = path_join E (a_output_dir a) (S ''videos'')
         in andthen (call b (Launch (\<not> a_headed a)))
              (\<lambda>_. andthen (call b NewContext)
                (\<lambda>_. andthen (call b (SetDefaultTimeout (a_timeout a * 1000)))
                  (\<lambda>_. andthen (run_all E b base_url screenshot_dir video_dir (a_video a) test_cases)
                    (\<lambda>all_results. andthen (call b CloseContext)
                      (\<lambda>_. andthen (call b CloseBrowser)
                        (\<lambda>_. ret \<lparr> o_summary = build_summary all_results,
                                    o_test_cases = all_results,
                                    o_exit_code = (if failed (build_summary all_results) > 0
                                                   then 1 else 0) \<rparr>))))))))"

text \<open>The world in which the loop of \<open>run_test_case\<close> stands after its first \<open>k\<close>
  iterations over \<open>steps\<close>, begun in \<open>w0\<close>.\<close>

definition world_after ::
  "pyenv \<Rightarrow> 'w browser \<Rightarrow> pystr \<Rightarrow> pystr \<Rightarrow> step list \<Rightarrow> nat \<Rightarrow> 'w \<Rightarrow> 'w"
where
  "world_after E b dir tid steps k w0 =
     snd (snd (step_loop E b dir tid 0 (take k steps) init_state w0))"

section \<open>parse\_docx.py: the chain resolver\<close>

text \<open>
  The characters of the source that are not ASCII are given by code point: the arrow
  is U+2192; the separators of \<open>re.split(r"[,...;]")\<close> are the comma, the semicolon and
  their full-width forms U+FF0C and U+FF1B; the verbs of the alternation in
  \<open>_resolve_arrow_chains\<close> are listed in its order, and the default verb is its first
  one, U+9EDE U+9078.
\<close>

definition ARROW :: nat where
  "ARROW = 8594"

definition is_sep :: "nat \<Rightarrow> bool" where
  "is_sep c \<longleftrightarrow> c = 44 \<or> c = 65292 \<or> c = 65307 \<or> c = 59"

definition ARROW_VERBS :: "pystr list" where
  "ARROW_VERBS =
     [[40670, 36984], [40670, 25802], [25353, 19979], [25353], [40670], [36984, 25353],
      [20999, 25563], [23637, 38283], [36914, 20837], [21069, 24448], [38283, 21855],
      [28687, 35261], [21040]]"

definition CLICK_VERB :: pystr where
  "CLICK_VERB = [40670, 36984]"

text \<open>\<open>sep.join(parts)\<close>.\<close>

fun join :: "pystr \<Rightarrow> pystr list \<Rightarrow> pystr" where
  "join sep [] = []"
| "join sep [x] = x"
| "join sep (x # y # ys) = x @ sep @ join sep (y # ys)"

text \<open>\<open>[p.strip() for p in fragment.split(arrow) if p.strip()]\<close>.\<close>

definition arrow_parts :: "pystr \<Rightarrow> pystr list" where
  "arrow_parts fragment =
     filter (\<lambda>p. p \<noteq> []) (map strip (split_on (\<lambda>c. c = ARROW) fragment))"

text \<open>\<open>re.match\<close> of the verb alternation followed by \<open>\s*\<close> on \<open>first\<close>: the
  alternatives are tried in order and the trailing \<open>\s*\<close> always matches, so group 1 is
  the first verb of the list that \<open>first\<close> starts with.\<close>

definition verb_match :: "pystr \<Rightarrow> pystr option" where
  "verb_match first = find (startswith first) ARROW_VERBS"

text \<open>The body of the loop over the fragments: what is appended to \<open>result_parts\<close>.\<close>

definition resolve_fragment :: "pystr \<Rightarrow> pystr" where
  "resolve_fragment frag =
     (let fragment = strip frag in
      if ARROW \<notin> set fragment then fragment
      else if length (arrow_parts fragment) < 2 then filter (\<lambda>c. c \<noteq> ARROW) fragment
      else (case verb_match (hd (arrow_parts fragment)) of
              Some verb \<Rightarrow> verb @ last (arrow_parts fragment)
            | None \<Rightarrow> CLICK_VERB @ last (arrow_parts fragment)))"

definition resolve_arrow_chains :: "pystr \<Rightarrow> pystr" where
  "resolve_arrow_chains text =
     (if ARROW \<notin> set text then text
      else join [65292] (map resolve_fragment (split_on is_sep text)))"

section \<open>Regular expressions\<close>

text \<open>
  The patterns of \<open>parse_docx.py\<close> are written in a small regular-expression type and
  matched as Python's \<open>re\<close> matches them: by backtracking, the alternatives of \<open>|\<close> in
  their order, greedy repetition longest first and lazy repetition shortest first.
  Every repetition of the source repeats a single character class (\<open>\s*\<close>, \<open>.+\<close>,
  \<open>.+?\<close>, \<open>\d+\<close>, \<open>#{1,4}\<close>, a class with \<open>?\<close>), so \<open>Rep greedy min max P\<close> repeats a
  class.  \<open>Grp i r\<close> is capture group \<open>i\<close>, and \<open>Eol\<close> is \<open>$\<close>.  The leading \<open>^\<close> of a pattern is
  the choice of \<open>re_match\<close> (a match at position 0) over \<open>re_search\<close>.
\<close>

datatype rx =
    Eps
  | Lit pystr
  | Cls "nat \<Rightarrow> bool"
  | Seq rx rx
  | Alt rx rx
  | Rep bool nat "nat option" "nat \<Rightarrow> bool"
  | Grp nat rx
  | Eol

type_synonym caps = "nat \<Rightarrow> pystr option"

definition dec :: "nat option \<Rightarrow> nat option" where
  "dec mx = map_option (\<lambda>m. m - 1) mx"

fun rep_greedy :: "(nat \<Rightarrow> bool) \<Rightarrow> nat \<Rightarrow> nat option \<Rightarrow> pystr \<Rightarrow> (pystr \<Rightarrow> 'a option) \<Rightarrow> 'a option"
where
  "rep_greedy P mn mx [] k = (if mn = 0 then k [] else None)"
| "rep_greedy P mn mx (x # xs) k =
     (if P x \<and> mx \<noteq> Some 0 then
        (case rep_greedy P (mn - 1) (dec mx) xs k of
           Some r \<Rightarrow> Some r
         | None \<Rightarrow> if mn = 0 then k (x # xs) else None)
      else if mn = 0 then k (x # xs) else None)"

fun rep_lazy :: "(nat \<Rightarrow> bool) \<Rightarrow> nat \<Rightarrow> nat option \<Rightarrow> pystr \<Rightarrow> (pystr \<Rightarrow> 'a option) \<Rightarrow> 'a option"
where
  "rep_lazy P mn mx [] k = (if mn = 0 then k [] else None)"
| "rep_lazy P mn mx (x # xs) k =
     (if mn = 0 then
        (case k (x # xs) of
           Some r \<Rightarrow> Some r
         | None \<Rightarrow> if P x \<and> mx \<noteq> Some 0 then rep_lazy P 0 (dec mx) xs k else None)
      else if P x \<and> mx \<noteq> Some 0 then rep_lazy P (mn - 1) (dec mx) xs k else None)"

text \<open>\<open>rmatch r s c k\<close> matches \<open>r\<close> at the front of \<open>s\<close> with the groups \<open>c\<close> captured so
  far and hands the rest of the input and the groups to the continuation \<open>k\<close>; when
  \<open>k\<close> fails, the next way of matching \<open>r\<close> is tried.\<close>

fun rmatch :: "rx \<Rightarrow> pystr \<Rightarrow> caps \<Rightarrow> (pystr \<Rightarrow> caps \<Rightarrow> 'a option) \<Rightarrow> 'a option" where
  "rmatch Eps s c k = k s c"
| "rmatch (Lit l) s c k = (if startswith s l then k (drop (length l) s) c else None)"
| "rmatch (Cls P) s c k = (case s of [] \<Rightarrow> None | x # xs \<Rightarrow> if P x then k xs c else None)"
| "rmatch (Seq a b) s c k = rmatch a s c (\<lambda>s' c'. rmatch b s' c' k)"
| "rmatch (Alt a b) s c k = (case rmatch a s c k of Some r \<Rightarrow> Some r | None \<Rightarrow> rmatch b s c k)"
| "rmatch (Rep greedy mn mx P) s c k =
     (if greedy then rep_greedy P mn mx s (\<lambda>s'. k s' c) else rep_lazy P mn mx s (\<lambda>s'. k s' c))"
| "rmatch (Grp i a) s c k =
     rmatch a s c (\<lambda>s' c'. k s' (c'(i \<mapsto> take (length s - length s') s)))"
| "rmatch Eol s c k = (if s = [] \<or> s = [10] then k s c else None)"

text \<open>\<open>pattern.match(s)\<close> and \<open>pattern.search(s)\<close>: the text after the match and the
  groups, or \<open>None\<close>.\<close>

definition re_match :: "rx \<Rightarrow> pystr \<Rightarrow> (pystr \<times> caps) option" where
  "re_match r s = rmatch r s (\<lambda>i. None) (\<lambda>s' c. Some (s', c))"

fun re_search :: "rx \<Rightarrow> pystr \<Rightarrow> (pystr \<times> caps) option" where
  "re_search r [] = re_match r []"
| "re_search r (x # xs) =
     (case re_match r (x # xs) of Some m \<Rightarrow> Some m | None \<Rightarrow> re_search r xs)"

text \<open>\<open>len(m.groups())\<close> is the number of groups of the pattern.  \<open>sets i r\<close> holds when
  every match of \<open>r\<close> captures group \<open>i\<close>.\<close>

fun ngroups :: "rx \<Rightarrow> nat" where
  "ngroups (Grp i r) = Suc (ngroups r)"
| "ngroups (Seq a b) = ngroups a + ngroups b"
| "ngroups (Alt a b) = ngroups a + ngroups b"
| "ngroups r = 0"

fun sets :: "nat \<Rightarrow> rx \<Rightarrow> bool" where
  "sets i (Grp j r) = (i = j \<or> sets i r)"
| "sets i (Seq a b) = (sets i a \<or> sets i b)"
| "sets i (Alt a b) = (sets i a \<and> sets i b)"
| "sets i r = False"

text \<open>\<open>m.groups()[i - 1]\<close> used as a string: \<open>IndexError\<close> beyond the pattern's groups,
  and \<open>AttributeError\<close> on the \<open>None\<close> of a group that took no part in the match.\<close>

definition group :: "caps \<Rightarrow> nat \<Rightarrow> nat \<Rightarrow> pystr + pystr" where
  "group c n i =
     (if n < i then Inl (S ''IndexError'')
      else (case c i of None \<Rightarrow> Inl (S ''AttributeError'') | Some g \<Rightarrow> Inr g))"

fun seqs :: "rx list \<Rightarrow> rx" where
  "seqs [] = Eps"
| "seqs [r] = r"
| "seqs (r # rs) = Seq r (seqs rs)"

fun alts :: "rx list \<Rightarrow> rx" where
  "alts [] = Cls (\<lambda>c. False)"
| "alts [r] = r"
| "alts (r # rs) = Alt r (alts rs)"

text \<open>A literal and an alternation of literals, as they stand and under
  \<open>re.IGNORECASE\<close>, where a character of the pattern matches the characters that the
  library's case table relates to it (the parameter \<open>re_ieq\<close>).\<close>

definition lits :: "pystr list \<Rightarrow> rx" where
  "lits ls = alts (map Lit ls)"

definition ilit :: "pyenv \<Rightarrow> pystr \<Rightarrow> rx" where
  "ilit E l = seqs (map (\<lambda>p. Cls (re_ieq E p)) l)"

definition ialts :: "pyenv \<Rightarrow> pystr list \<Rightarrow> rx" where
  "ialts E ls = alts (map (ilit E) ls)"

definition icls :: "pyenv \<Rightarrow> pystr \<Rightarrow> nat \<Rightarrow> bool" where
  "icls E ps c = list_ex (\<lambda>p. re_ieq E p c) ps"

definition dot :: "nat \<Rightarrow> bool" where
  "dot c \<longleftrightarrow> c \<noteq> 10"

definition SP0 :: rx where "SP0 = Rep True 0 None py_isspace"
definition SP1 :: rx where "SP1 = Rep True 1 None py_isspace"
definition DOTS0 :: rx where "DOTS0 = Rep True 0 None dot"
definition DOTS1 :: rx where "DOTS1 = Rep True 1 None dot"
definition LAZY1 :: rx where "LAZY1 = Rep False 1 None dot"

section \<open>parse\_docx.py: the step inference engine\<close>

text \<open>
  The optional quote classes of the patterns, all under \<open>re.IGNORECASE\<close>: the ASCII
  quotes; the opening corner bracket U+300C or an ASCII quote; the closing corner
  bracket U+300D or an ASCII quote.  \<open>OPTCH E c\<close> is the character \<open>c\<close> followed by
  \<open>?\<close>, and \<open>CONTAINS\<close> is the alternation \<open>is|contains?|...\<close> of the assertion patterns.
\<close>

definition QUOTE1 :: "pyenv \<Rightarrow> rx" where
  "QUOTE1 E = Rep True 0 (Some 1) (icls E [34, 39])"

definition OPENQ :: "pyenv \<Rightarrow> rx" where
  "OPENQ E = Rep True 0 (Some 1) (icls E [12300, 12300, 34, 39])"

definition CLOSEQ :: "pyenv \<Rightarrow> rx" where
  "CLOSEQ E = Rep True 0 (Some 1) (icls E [12301, 12301, 34, 39])"

definition OPTCH :: "pyenv \<Rightarrow> nat \<Rightarrow> rx" where
  "OPTCH E c = Rep True 0 (Some 1) (re_ieq E c)"

definition CONTAINS :: "pyenv \<Rightarrow> rx" where
  "CONTAINS E = alts [ilit E (S ''is''), seqs [ilit E (S ''contain''), OPTCH E 115],
                      ilit E [21253, 21547], ilit E [28858]]"

definition SEARCH_INPUT_SELECTORS :: pystr where
  "SEARCH_INPUT_SELECTORS =
     S ''input[name*=keyword], input[name*=Keyword], input[placeholder*='' @ [27298, 32034]
     @ S ''], input[placeholder*='' @ [25628, 23563] @ S ''], input[placeholder*='' @ [26597, 35426]
     @ S ''], input.ui-autocomplete-input, input[type=search], ''
     @ S ''input[name*=search], input[name*=query], #search, .search-input''"

text \<open>\<open>_STEP_ACTION_PATTERNS\<close>, in the order of the source; all are compiled with
  \<open>re.I\<close> and used with \<open>match\<close>.\<close>

definition STEP_ACTION_PATTERNS :: "pyenv \<Rightarrow> (rx \<times> pystr) list" where
  "STEP_ACTION_PATTERNS E =
     [(seqs [Alt (ilit E (S ''navigate'')) (seqs [ilit E (S ''go''), SP0,
        ilit E (S ''to'')]), SP1, Grp 1 DOTS1],
       S ''goto''),
      (seqs [ialts E [[38283, 21855], [21069, 24448], [28687, 35261], [36914, 20837],
        [36899, 21040], [36899, 33267], [36896, 35370], [35370, 21839], [21040]], SP0,
        Grp 1 DOTS1],
       S ''goto''),
      (seqs [ilit E (S ''click''), SP1, Grp 1 DOTS1],
       S ''click''),
      (seqs [ialts E [[25353, 19979], [40670, 25802], [40670, 36984], [25353], [40670],
        [36984, 25353], [21246, 36984], [23637, 38283], [25910, 21512], [20999, 25563],
        [25353, 37397]], SP0, Grp 1 DOTS1],
       S ''click''),
      (seqs [ialts E [S ''type'', S ''enter'', S ''input'', S ''fill''], SP1, QUOTE1 E,
        Grp 1 LAZY1, QUOTE1 E, SP1, ilit E (S ''in''), Alt (ilit E (S ''to'')) Eps, SP1,
        Grp 2 DOTS1],
       S ''fill''),
      (seqs [ialts E [[36664, 20837], [22635, 20837], [22635, 23531], [37749, 20837]],
        SP0, OPENQ E, Grp 1 LAZY1, CLOSEQ E, SP0, ialts E [[26044], [21040], [22312],
        [33267]], SP0, Grp 2 DOTS1],
       S ''fill''),
      (seqs [ialts E [[36664, 20837], [22635, 20837], [22635, 23531], [37749, 20837]],
        SP0, OPENQ E, Grp 1 LAZY1, CLOSEQ E, SP0, ialts E [[38364, 37749, 23383], [25628,
        23563], [26597, 35426], [23383, 20018]]],
       S ''fill_search''),
      (seqs [ilit E (S ''select''), SP1, QUOTE1 E, Grp 1 LAZY1, QUOTE1 E, SP1,
        ialts E [S ''from'', S ''in''], SP1, Grp 2 DOTS1],
       S ''select''),
      (seqs [ialts E [[36984, 25799], [36984, 21462], [19979, 25289, 36984]], SP0,
        OPENQ E, Grp 1 LAZY1, CLOSEQ E, SP0, ialts E [[26044], [22312], [24478]], SP0,
        Grp 2 DOTS1],
       S ''select''),
      (seqs [ilit E (S ''hover''), SP1, Grp 1 DOTS1],
       S ''hover''),
      (seqs [ialts E [[28369, 40736, 31227, 33267], [31227, 33267], [31227, 21040],
        [25080, 20572]], SP0, Grp 1 DOTS1],
       S ''hover''),
      (seqs [ialts E [S ''verify'', S ''assert'', S ''check''], SP1, Grp 1 LAZY1, SP1,
        Alt (seqs [ilit E (S ''is''), SP1,
        ilit E (S ''visible'')]) (seqs [ilit E (S ''appear''), OPTCH E 115])],
       S ''assert_visible''),
      (seqs [ialts E [[30906, 35469], [39511, 35657], [30906, 20445], [27298, 26597]],
        SP0, Grp 1 LAZY1, SP0, ialts E [[21487, 35211], [23384, 22312], [20986, 29694],
        [39023, 31034], [21576, 29694]]],
       S ''assert_visible''),
      (seqs [ialts E [S ''verify'', S ''assert'', S ''check'', [30906, 35469], [39511,
        35657]], SP0, ialts E [S ''url'', [32178, 22336], [36899, 32080]], SP0,
        Alt (CONTAINS E) Eps, SP0, Grp 1 DOTS1],
       S ''assert_url''),
      (seqs [ialts E [S ''verify'', S ''assert'', S ''check'', [30906, 35469], [39511,
        35657]], SP0, ialts E [[25991, 23383], S ''text'', [20839, 23481]], SP0,
        Alt (CONTAINS E) Eps, SP0, Grp 1 DOTS1],
       S ''assert_text''),
      (seqs [ialts E [S ''wait'', [31561, 24453]], SP0,
        Grp 1 (Rep True 1 None (re_digit E))],
       S ''wait''),
      (seqs [ialts E [S ''screenshot'', [25130, 22294], [25847, 22294], [25130, 21462,
        30059, 38754]], SP0, Grp 1 DOTS0],
       S ''screenshot''),
      (seqs [ialts E [S ''scroll'', [25458, 21205], [28414, 21205], [21521, 19979,
        25458]], SP0, Grp 1 DOTS0],
       S ''scroll'')]"

definition ZH_GOTO_VERBS :: rx where
  "ZH_GOTO_VERBS = lits
     [[36914, 20837], [38283, 21855], [21069, 24448], [28687, 35261], [36899, 21040],
      [36899, 33267], [36896, 35370], [35370, 21839], [26597, 30475], [27298, 35222],
      [25171, 38283]]"

definition ZH_CLICK_VERBS :: rx where
  "ZH_CLICK_VERBS = lits
     [[40670, 36984], [40670, 25802], [25353, 19979], [25353], [40670], [36984, 25353],
      [21246, 36984], [23637, 38283], [25910, 21512], [20999, 25563]]"

definition ZH_FILL_VERBS :: rx where
  "ZH_FILL_VERBS = lits
     [[36664, 20837], [22635, 20837], [22635, 23531], [37749, 20837]]"

definition ZH_ASSERT_VERBS :: rx where
  "ZH_ASSERT_VERBS = lits
     [[30906, 35469], [39511, 35657], [30906, 20445], [27298, 26597]]"

definition ZH_BROWSE_KEYWORDS :: rx where
  "ZH_BROWSE_KEYWORDS = seqs
     [lits [[20351, 29992], [21033, 29992], [36879, 36942], [20197]], DOTS0,
      lits [[38283, 21855], [28687, 35261], [27298, 35222], [26597, 30475], [36914, 20837]]]"

text \<open>The leading marker removed by \<open>re.sub\<close> in \<open>infer_step\<close>: the word for step
  (U+6B65 U+9A5F) or \<open>step\<close>, digits, and one of the full stop, U+3001, the colon and
  U+FF1A.\<close>

definition STEP_MARKER :: "pyenv \<Rightarrow> rx" where
  "STEP_MARKER E =
     seqs [ialts E [[27493, 39519], S ''step''], SP0, Rep True 0 None (re_digit E),
           Rep True 0 (Some 1) (icls E [46, 12289, 58, 65306]), SP0]"

definition QUOTED :: rx where
  "QUOTED = seqs [Cls (\<lambda>c. c \<in> set [12300, 12300, 34, 39]), Grp 1 LAZY1,
                  Cls (\<lambda>c. c \<in> set [12301, 12301, 34, 39])]"

text \<open>\<open>pattern.sub("", text)\<close> for a pattern that starts with \<open>^\<close> and cannot match the
  empty string: the one match, at the start, is removed.\<close>

definition sub_prefix :: "rx \<Rightarrow> pystr \<Rightarrow> pystr" where
  "sub_prefix r text = (case re_match r text of Some (rest, c) \<Rightarrow> rest | None \<Rightarrow> text)"

text \<open>\<open>s.strip(chars)\<close>.\<close>

definition strip_chars :: "pystr \<Rightarrow> pystr \<Rightarrow> pystr" where
  "strip_chars chars s =
     rev (dropWhile (\<lambda>c. c \<in> set chars) (rev (dropWhile (\<lambda>c. c \<in> set chars) s)))"

definition target_step :: "pystr \<Rightarrow> pystr \<Rightarrow> step" where
  "target_step action target =
     \<lparr> s_action = Some action, s_target = Some target, s_value = None, s_name = None \<rparr>"

definition value_step :: "pystr \<Rightarrow> pystr \<Rightarrow> pystr \<Rightarrow> step" where
  "value_step action target val =
     \<lparr> s_action = Some action, s_target = Some target, s_value = Some val, s_name = None \<rparr>"

definition screenshot_step :: "pystr \<Rightarrow> step" where
  "screenshot_step name =
     \<lparr> s_action = Some (S ''screenshot''), s_target = None, s_value = None, s_name = Some name \<rparr>"

text \<open>The body of the first-pass loop once \<open>pattern.match(text)\<close> has succeeded with
  groups \<open>c\<close>, for a pattern of \<open>n\<close> groups.\<close>

definition step_of_match :: "pystr \<Rightarrow> nat \<Rightarrow> caps \<Rightarrow> pystr \<Rightarrow> pystr + step" where
  "step_of_match action n c text =
     (if action = S ''fill'' \<and> 2 \<le> n then
        (case group c n 2 of
           Inl e \<Rightarrow> Inl e
         | Inr g2 \<Rightarrow> (case group c n 1 of
                        Inl e \<Rightarrow> Inl e
                      | Inr g1 \<Rightarrow> Inr (value_step action (strip g2) (strip g1))))
      else if action = S ''fill_search'' then
        (case group c n 1 of
           Inl e \<Rightarrow> Inl e
         | Inr g1 \<Rightarrow> Inr (value_step (S ''fill'') SEARCH_INPUT_SELECTORS
                           (strip_chars [12300, 12301, 34, 39] (strip g1))))
      else if action = S ''select'' \<and> 2 \<le> n then
        (case group c n 2 of
           Inl e \<Rightarrow> Inl e
         | Inr g2 \<Rightarrow> (case group c n 1 of
                        Inl e \<Rightarrow> Inl e
                      | Inr g1 \<Rightarrow> Inr (value_step action (strip g2) (strip g1))))
      else if action = S ''wait'' then
        (case group c n 1 of Inl e \<Rightarrow> Inl e | Inr g1 \<Rightarrow> Inr (target_step action (strip g1)))
      else if action = S ''scroll'' then
        (case group c n 1 of
           Inl e \<Rightarrow> Inl e
         | Inr g1 \<Rightarrow> Inr (target_step action (if strip g1 \<noteq> [] then strip g1 else S ''500'')))
      else if 0 < n then
        (case group c n 1 of Inl e \<Rightarrow> Inl e | Inr g1 \<Rightarrow> Inr (target_step action (strip g1)))
      else Inr (target_step action text))"

fun first_pass :: "(rx \<times> pystr) list \<Rightarrow> pystr \<Rightarrow> (pystr + step) option" where
  "first_pass [] text = None"
| "first_pass ((pattern, action) # ps) text =
     (case re_match pattern text of
        Some (rest, c) \<Rightarrow> Some (step_of_match action (ngroups pattern) c text)
      | None \<Rightarrow> first_pass ps text)"

text \<open>\<open>re.sub(r'[^\w]', '_', s)\<close>.\<close>

definition sanitize :: "pyenv \<Rightarrow> pystr \<Rightarrow> pystr" where
  "sanitize E s = map (\<lambda>c. if re_word E c then c else 95) s"

text \<open>The second pass and the fallback of \<open>infer_step\<close>.\<close>

definition second_pass :: "pyenv \<Rightarrow> pystr \<Rightarrow> pystr + step" where
  "second_pass E text =
     (if re_match ZH_GOTO_VERBS text \<noteq> None then Inr (target_step (S ''goto'') (S ''/''))
      else if re_search ZH_BROWSE_KEYWORDS text \<noteq> None then
        Inr (target_step (S ''goto'') (S ''/''))
      else if re_match ZH_CLICK_VERBS text \<noteq> None then
        (let remainder = strip (sub_prefix ZH_CLICK_VERBS text) in
         Inr (target_step (S ''click'')
                (if remainder \<noteq> [] then S ''text='' @ remainder else S ''body'')))
      else if re_match ZH_FILL_VERBS text \<noteq> None then
        (let remainder = strip (sub_prefix ZH_FILL_VERBS text) in
         case re_search QUOTED remainder of
           Some (rest, c) \<Rightarrow>
             (case group c 1 1 of
                Inl e \<Rightarrow> Inl e
              | Inr g1 \<Rightarrow> Inr (value_step (S ''fill'') SEARCH_INPUT_SELECTORS g1))
         | None \<Rightarrow> Inr (value_step (S ''fill'') (S ''input[type=text]'') remainder))
      else if re_match ZH_ASSERT_VERBS text \<noteq> None then
        (let remainder = strip (sub_prefix ZH_ASSERT_VERBS text) in
         Inr (target_step (S ''assert_visible'')
                (if remainder \<noteq> [] then S ''text='' @ take 60 remainder else S ''body'')))
      else Inr (screenshot_step (sanitize E (take 40 text))))"

text \<open>The text \<open>infer_step\<close> works on: stripped, the leading marker removed, stripped
  again; and, when it is not empty, with its arrow chains resolved.\<close>

definition unmarked :: "pyenv \<Rightarrow> pystr \<Rightarrow> pystr" where
  "unmarked E raw = strip (sub_prefix (STEP_MARKER E) (strip raw))"

definition infer_step :: "pyenv \<Rightarrow> pystr \<Rightarrow> pystr + step" where
  "infer_step E raw =
     (let text = unmarked E raw in
      if text = [] then Inr (screenshot_step (S ''blank_step''))
      else
        (let text = (if ARROW \<in> set text then resolve_arrow_chains text else text) in
         case first_pass (STEP_ACTION_PATTERNS E) text of
           Some result \<Rightarrow> result
         | None \<Rightarrow> second_pass E text))"

text \<open>The text the rules of \<open>infer_step\<close> are tried on, and what it is for a text to
  match no rule: no pattern of the first pass and no verb family of the second.\<close>

definition rule_text :: "pyenv \<Rightarrow> pystr \<Rightarrow> pystr" where
  "rule_text E raw =
     (if ARROW \<in> set (unmarked E raw) then resolve_arrow_chains (unmarked E raw)
      else unmarked E raw)"

definition matches_no_rule :: "pyenv \<Rightarrow> pystr \<Rightarrow> bool" where
  "matches_no_rule E text \<longleftrightarrow>
     first_pass (STEP_ACTION_PATTERNS E) text = None
     \<and> re_match ZH_GOTO_VERBS text = None \<and> re_search ZH_BROWSE_KEYWORDS text = None
     \<and> re_match ZH_CLICK_VERBS text = None \<and> re_match ZH_FILL_VERBS text = None
     \<and> re_match ZH_ASSERT_VERBS text = None"

text \<open>
  The leading marker in the words of the specification, without regular expressions:
  the step word (U+6B65 U+9A5F or \<open>step\<close>, letters compared as \<open>re.IGNORECASE\<close> compares
  them), then whitespace, then digits, then at most one of the full stop, U+3001, the
  colon and U+FF1A, then whitespace.  \<open>spec_unmarked\<close> is the input stripped, without
  its leading marker, and stripped again.
\<close>

definition ieq_prefix :: "pyenv \<Rightarrow> pystr \<Rightarrow> pystr \<Rightarrow> bool" where
  "ieq_prefix E word t \<longleftrightarrow>
     length word \<le> length t \<and> list_all2 (re_ieq E) word (take (length word) t)"

fun drop_one :: "(nat \<Rightarrow> bool) \<Rightarrow> pystr \<Rightarrow> pystr" where
  "drop_one P [] = []"
| "drop_one P (c # cs) = (if P c then cs else c # cs)"

definition spec_marker_rest :: "pyenv \<Rightarrow> pystr \<Rightarrow> pystr" where
  "spec_marker_rest E s =
     dropWhile py_isspace
       (drop_one (\<lambda>c. list_ex (\<lambda>p. re_ieq E p c) [46, 12289, 58, 65306])
          (dropWhile (re_digit E) (dropWhile py_isspace s)))"

definition spec_without_marker :: "pyenv \<Rightarrow> pystr \<Rightarrow> pystr" where
  "spec_without_marker E t =
     (if ieq_prefix E [27493, 39519] t then spec_marker_rest E (drop 2 t)
      else if ieq_prefix E (S ''step'') t then spec_marker_rest E (drop 4 t)
      else t)"

definition spec_unmarked :: "pyenv \<Rightarrow> pystr \<Rightarrow> pystr" where
  "spec_unmarked E raw = strip (spec_without_marker E (strip raw))"

section \<open>parse\_docx.py: the record extractor\<close>

text \<open>A test case as the extractor builds it.\<close>

record parsed_case =
  pc_id :: pystr
  pc_name :: pystr
  pc_description :: pystr
  pc_steps :: "step list"
  pc_expected_result :: pystr

text \<open>\<open>str.splitlines\<close>: the line boundaries of Python, \<open>\r\n\<close> counting as one; no
  line is produced after a final boundary.\<close>

definition is_linebreak :: "nat \<Rightarrow> bool" where
  "is_linebreak c \<longleftrightarrow> c \<in> set [10, 11, 12, 13, 28, 29, 30, 133, 8232, 8233]"

fun lines_from :: "pystr \<Rightarrow> pystr \<Rightarrow> pystr list" where
  "lines_from cur [] = (if cur = [] then [] else [rev cur])"
| "lines_from cur [c] = (if is_linebreak c then [rev cur] else [rev (c # cur)])"
| "lines_from cur (c # d # cs) =
     (if c = 13 \<and> d = 10 then rev cur # lines_from [] cs
      else if is_linebreak c then rev cur # lines_from [] (d # cs)
      else lines_from (c # cur) (d # cs))"

definition splitlines :: "pystr \<Rightarrow> pystr list" where
  "splitlines s = lines_from [] s"

text \<open>The label \<open>f"TC-{n:03d}"\<close>.\<close>

definition fmt03 :: "nat \<Rightarrow> pystr" where
  "fmt03 n = (if n < 10 then 48 # 48 # str_nat n else if n < 100 then 48 # str_nat n else str_nat n)"

definition tc_label :: "nat \<Rightarrow> pystr" where
  "tc_label n = S ''TC-'' @ fmt03 n"

text \<open>Results gathered in order; the first exception leaves the loop.\<close>

fun collect :: "(pystr + 'a) list \<Rightarrow> pystr + 'a list" where
  "collect [] = Inr []"
| "collect (x # xs) =
     (case x of
        Inl e \<Rightarrow> Inl e
      | Inr v \<Rightarrow> (case collect xs of Inl e \<Rightarrow> Inl e | Inr vs \<Rightarrow> Inr (v # vs)))"

text \<open>The loop \<open>for s in re.split(seps, steps_raw): s = s.strip(); if s: ... infer_step(s)\<close>.\<close>

definition infer_steps :: "pyenv \<Rightarrow> (nat \<Rightarrow> bool) \<Rightarrow> pystr \<Rightarrow> pystr + step list" where
  "infer_steps E seps steps_raw =
     collect (map (infer_step E) (filter (\<lambda>s. s \<noteq> []) (map strip (split_on seps steps_raw))))"

text \<open>The separators of a steps cell in a pipe table and in a Word table:
  semicolon, newline, the ideographic full stop U+3002 and U+FF1B.\<close>

definition is_step_sep :: "nat \<Rightarrow> bool" where
  "is_step_sep c \<longleftrightarrow> c = 59 \<or> c = 10 \<or> c = 12290 \<or> c = 65307"

text \<open>\<open>dict(zip(headers, cells))\<close>, where a later duplicate key wins, and a chain of
  \<open>row.get(k1, row.get(k2, ... ""))\<close>.\<close>

definition row_of :: "pystr list \<Rightarrow> pystr list \<Rightarrow> (pystr \<rightharpoonup> pystr)" where
  "row_of headers cells = map_of (rev (zip headers cells))"

fun get_first :: "(pystr \<rightharpoonup> pystr) \<Rightarrow> pystr list \<Rightarrow> pystr" where
  "get_first row [] = []"
| "get_first row (k # ks) = (case row k of Some v \<Rightarrow> v | None \<Rightarrow> get_first row ks)"

definition goto_root :: step where
  "goto_root = target_step (S ''goto'') (S ''/'')"

subsection \<open>The pipe-table strategy\<close>

text \<open>\<open>^[-:]+$\<close>, the cell of a separator row.\<close>

definition SEPARATOR_CELL :: rx where
  "SEPARATOR_CELL = seqs [Rep True 1 None (\<lambda>c. c = 45 \<or> c = 58), Eol]"

definition pipe_cells :: "pystr \<Rightarrow> pystr list" where
  "pipe_cells line = split_on (\<lambda>c. c = 124) (strip_chars [124] line)"

text \<open>The loop of \<open>_parse_table_cases\<close> over the lines, with its variables \<open>in_table\<close>,
  \<open>headers\<close> and \<open>cases\<close>; the \<open>break\<close> at the first line after the table returns the
  cases.  The header aliases beyond ASCII are U+7DE8 U+865F for the id, U+540D U+7A31
  and U+6E2C U+8A66 U+6848 U+4F8B for the name, U+6B65 U+9A5F for the steps and
  U+9810 U+671F U+7D50 U+679C for the expected result.\<close>

fun table_loop ::
  "pyenv \<Rightarrow> pystr list \<Rightarrow> bool \<Rightarrow> pystr list \<Rightarrow> parsed_case list \<Rightarrow> pystr + parsed_case list"
where
  "table_loop E [] in_table headers cases = Inr cases"
| "table_loop E (l # ls) in_table headers cases =
     (let line = strip l in
      if \<not> startswith line (S ''|'') then
        (if in_table then Inr cases else table_loop E ls in_table headers cases)
      else
        (let cells = map strip (pipe_cells line) in
         if list_all (\<lambda>c. re_match SEPARATOR_CELL c \<noteq> None) (filter (\<lambda>c. c \<noteq> []) cells) then
           table_loop E ls in_table headers cases
         else if \<not> in_table then table_loop E ls True (map (str_lower E) cells) cases
         else
           (let row = row_of headers cells;
                id_val = get_first row [S ''id'', [32232, 34399]];
                name_val = get_first row [S ''name'', S ''test case'', [21517, 31281],
                                          [28204, 35430, 26696, 20363]];
                steps_raw = get_first row [S ''steps'', [27493, 39519], S ''step''];
                expected = get_first row [S ''expected'', S ''expected result'',
                                          [38928, 26399, 32080, 26524]]
            in if name_val = [] then table_loop E ls in_table headers cases
               else
                 (case infer_steps E is_step_sep steps_raw of
                    Inl e \<Rightarrow> Inl e
                  | Inr step_list \<Rightarrow>
                      table_loop E ls in_table headers
                        (cases @
                         [\<lparr> pc_id = (if id_val \<noteq> [] then id_val else tc_label (length cases + 1)),
                            pc_name = name_val,
                            pc_description = [],
                            pc_steps = (if step_list \<noteq> [] then step_list else [goto_root]),
                            pc_expected_result = expected \<rparr>])))))"

definition parse_table_cases :: "pyenv \<Rightarrow> pystr list \<Rightarrow> pystr + parsed_case list" where
  "parse_table_cases E lines = table_loop E lines False [] []"

subsection \<open>The grid-table strategy\<close>

text \<open>\<open>^\+[=\-]+\<close>, a border line of a grid table.\<close>

definition GRID_BORDER :: rx where
  "GRID_BORDER = seqs [Lit (S ''+''), Rep True 1 None (\<lambda>c. c = 61 \<or> c = 45)]"

text \<open>The first loop of \<open>_parse_grid_table_cases\<close>, with \<open>row_blocks\<close>, \<open>current\<close> and
  \<open>in_grid\<close>, and the \<open>if current\<close> after it.\<close>

fun grid_blocks :: "pystr list \<Rightarrow> pystr list list \<Rightarrow> pystr list \<Rightarrow> bool \<Rightarrow> pystr list list" where
  "grid_blocks [] row_blocks current in_grid =
     (if current \<noteq> [] then row_blocks @ [current] else row_blocks)"
| "grid_blocks (line # ls) row_blocks current in_grid =
     (if re_match GRID_BORDER line \<noteq> None then
        grid_blocks ls (if current \<noteq> [] then row_blocks @ [current] else row_blocks) [] True
      else if in_grid \<and> startswith line (S ''|'') then
        grid_blocks ls row_blocks (current @ [line]) in_grid
      else if in_grid \<and> \<not> startswith line (S ''|'') \<and> \<not> startswith line (S ''+'') then
        grid_blocks ls (if current \<noteq> [] then row_blocks @ [current] else row_blocks) [] False
      else grid_blocks ls row_blocks current in_grid)"

text \<open>\<open>re.sub(pattern, r"\1", s)\<close>: every match, found from left to right and not
  overlapping the one before, is replaced by its group 1.  The counter is the number
  of characters still covered by the last match.\<close>

fun sub_group1 :: "rx \<Rightarrow> nat \<Rightarrow> pystr \<Rightarrow> pystr" where
  "sub_group1 r k [] = []"
| "sub_group1 r (Suc k) (c # cs) = sub_group1 r k cs"
| "sub_group1 r 0 (c # cs) =
     (case re_match r (c # cs) of
        None \<Rightarrow> c # sub_group1 r 0 cs
      | Some (rest, caps) \<Rightarrow>
          (if length rest \<le> length cs
           then get_or (caps 1) [] @ sub_group1 r (length cs - length rest) cs
           else get_or (caps 1) [] @ c # sub_group1 r 0 cs))"

text \<open>\<open>\*\*(.+?)\*\*\<close>, bold in Markdown.\<close>

definition BOLD :: rx where
  "BOLD = seqs [Lit (S ''**''), Grp 1 LAZY1, Lit (S ''**'')]"

definition flatten_cell_lines :: "pystr list \<Rightarrow> pystr" where
  "flatten_cell_lines cell_lines =
     strip (sub_group1 BOLD 0 (join (S '' '') (filter (\<lambda>l. l \<noteq> []) (map strip cell_lines))))"

definition extract_row_cells :: "pystr list \<Rightarrow> pystr list" where
  "extract_row_cells row_lines =
     (case row_lines of
        [] \<Rightarrow> []
      | first # rest \<Rightarrow>
          map (\<lambda>i. flatten_cell_lines
                     (concat (map (\<lambda>l. if i < length (pipe_cells l) then [strip (pipe_cells l ! i)]
                                        else [])
                                  row_lines)))
              [0 ..< length (pipe_cells first)])"

text \<open>The header vocabulary that marks a row to skip: U+500B U+6848 U+7DE8 U+865F,
  U+9805 U+76EE U+5E8F, U+6E2C U+8A66 U+76EE U+6A19, U+6E2C U+8A66 U+7D00 U+9304.\<close>

definition GRID_HEADER :: rx where
  "GRID_HEADER = lits [[20491, 26696, 32232, 34399], [38917, 30446, 24207],
                       [28204, 35430, 30446, 27161], [28204, 35430, 32000, 37636]]"

text \<open>The loop over the row blocks, with \<open>tc_counter\<close> and \<open>cases\<close>.\<close>

fun grid_loop ::
  "pyenv \<Rightarrow> pystr list list \<Rightarrow> nat \<Rightarrow> parsed_case list \<Rightarrow> pystr + parsed_case list"
where
  "grid_loop E [] tc_counter cases = Inr cases"
| "grid_loop E (block # bs) tc_counter cases =
     (let cells = extract_row_cells block in
      if length cells < 2 then grid_loop E bs tc_counter cases
      else
        (let first_cell = strip (cells ! 0) in
         if re_search GRID_HEADER first_cell \<noteq> None then grid_loop E bs tc_counter cases
         else
           (let name = cells ! 1;
                steps_raw = (if 2 < length cells then cells ! 2 else []);
                expected = (if 3 < length cells then cells ! 3 else [])
            in if name = [] \<or> re_match (Rep True 1 None (re_digit E)) first_cell = None then
                 grid_loop E bs tc_counter cases
               else
                 (case infer_steps E is_sep (resolve_arrow_chains steps_raw) of
                    Inl e \<Rightarrow> Inl e
                  | Inr step_list \<Rightarrow>
                      grid_loop E bs (tc_counter + 1)
                        (cases @
                         [\<lparr> pc_id = tc_label (tc_counter + 1),
                            pc_name = name,
                            pc_description = steps_raw,
                            pc_steps = (if \<not> list_ex is_goto step_list then goto_root # step_list
                                        else step_list)
                                       @ [screenshot_step (tc_label (tc_counter + 1) @ S ''_final'')],
                            pc_expected_result = expected \<rparr>])))))"

definition parse_grid_table_cases :: "pyenv \<Rightarrow> pystr \<Rightarrow> pystr + parsed_case list" where
  "parse_grid_table_cases E md = grid_loop E (grid_blocks (splitlines md) [] [] False) 0 []"

subsection \<open>The section-based strategy\<close>

text \<open>
  \<open>_TC_HEADER_RE\<close>, \<open>^#{1,4}\s*(?:TC[-\s]?(\d+)[:\s]?\s*)?(.+)$\<close> under \<open>re.I\<close>; the
  keywords a heading must contain, \<open>TC\<close>, \<open>test case\<close>, U+6E2C U+8A66 or U+6848 U+4F8B;
  \<open>_NUMBERED_STEP_RE\<close> and \<open>_BULLET_STEP_RE\<close>; and \<open>_EXPECTED_RE\<close>, a keyword
  (\<open>expected\<close>, U+9810 U+671F U+7D50 U+679C, U+671F U+671B, \<open>result\<close>, \<open>verify\<close>,
  U+9A57 U+8B49), then whitespace or colons, then the text.
\<close>

definition TC_HEADER :: "pyenv \<Rightarrow> rx" where
  "TC_HEADER E =
     seqs [Rep True 1 (Some 4) (re_ieq E 35), SP0,
           Alt (seqs [ilit E (S ''TC''),
                      Rep True 0 (Some 1) (\<lambda>c. icls E [45] c \<or> py_isspace c),
                      Grp 1 (Rep True 1 None (re_digit E)),
                      Rep True 0 (Some 1) (\<lambda>c. icls E [58] c \<or> py_isspace c),
                      SP0])
               Eps,
           Grp 2 DOTS1, Eol]"

definition TC_KEYWORD :: "pyenv \<Rightarrow> rx" where
  "TC_KEYWORD E = ialts E [S ''TC'', S ''test case'', [28204, 35430], [26696, 20363]]"

definition NUMBERED_STEP :: "pyenv \<Rightarrow> rx" where
  "NUMBERED_STEP E =
     seqs [Rep True 1 None (re_digit E), Cls (\<lambda>c. c = 46 \<or> c = 41), SP1, Grp 1 DOTS1]"

definition BULLET_STEP :: rx where
  "BULLET_STEP = seqs [Cls (\<lambda>c. c = 45 \<or> c = 42), SP1, Grp 1 DOTS1]"

definition EXPECTED :: "pyenv \<Rightarrow> rx" where
  "EXPECTED E =
     seqs [ialts E [S ''expected'', [38928, 26399, 32080, 26524], [26399, 26395], S ''result'',
                    S ''verify'', [39511, 35657]],
           Rep True 1 None (\<lambda>c. py_isspace c \<or> icls E [58, 65306] c),
           Grp 1 DOTS1]"

record sec_state =
  sec_cases :: "parsed_case list"
  sec_current :: "parsed_case option"
  sec_counter :: nat

text \<open>\<open>if current_case and current_case.get("steps"): test_cases.append(current_case)\<close>.\<close>

definition save_current :: "sec_state \<Rightarrow> parsed_case list" where
  "save_current st =
     (case sec_current st of
        None \<Rightarrow> sec_cases st
      | Some cur \<Rightarrow> if pc_steps cur \<noteq> [] then sec_cases st @ [cur] else sec_cases st)"

text \<open>The heading branch: \<open>tc_num\<close> is group 1 or, when that took no part,
  \<open>str(tc_counter)\<close>, whose \<open>int\<close> is the counter; \<open>int\<close> of group 1 is the library's.\<close>

definition open_case :: "pyenv \<Rightarrow> caps \<Rightarrow> sec_state \<Rightarrow> pystr + sec_state" where
  "open_case E c st =
     (let counter = sec_counter st + 1 in
      case group c 2 2 of
        Inl e \<Rightarrow> Inl e
      | Inr g2 \<Rightarrow>
          (case (case c 1 of
                   None \<Rightarrow> Inr counter
                 | Some g1 \<Rightarrow> if g1 \<noteq> [] then int_of_str E g1 else Inr counter) of
             Inl e \<Rightarrow> Inl e
           | Inr n \<Rightarrow>
               Inr \<lparr> sec_cases = save_current st,
                     sec_current = Some \<lparr> pc_id = tc_label n, pc_name = strip g2,
                                          pc_description = [], pc_steps = [],
                                          pc_expected_result = [] \<rparr>,
                     sec_counter = counter \<rparr>))"

text \<open>A numbered or bulleted line inside a case: the expected result or a step.\<close>

definition step_line :: "pyenv \<Rightarrow> caps \<Rightarrow> parsed_case \<Rightarrow> pystr + parsed_case" where
  "step_line E c cur =
     (case group c 1 1 of
        Inl e \<Rightarrow> Inl e
      | Inr g1 \<Rightarrow>
          (case re_match (EXPECTED E) (strip g1) of
             Some (rest, c2) \<Rightarrow>
               (case group c2 1 1 of
                  Inl e \<Rightarrow> Inl e
                | Inr x \<Rightarrow> Inr (cur\<lparr> pc_expected_result := strip x \<rparr>))
           | None \<Rightarrow>
               (case infer_step E (strip g1) of
                  Inl e \<Rightarrow> Inl e
                | Inr s \<Rightarrow> Inr (cur\<lparr> pc_steps := pc_steps cur @ [s] \<rparr>))))"

fun section_loop :: "pyenv \<Rightarrow> pystr list \<Rightarrow> sec_state \<Rightarrow> pystr + sec_state" where
  "section_loop E [] st = Inr st"
| "section_loop E (line # ls) st =
     (case (if re_search (TC_KEYWORD E) line \<noteq> None then re_match (TC_HEADER E) line else None) of
        Some (rest, c) \<Rightarrow>
          (case open_case E c st of Inl e \<Rightarrow> Inl e | Inr st' \<Rightarrow> section_loop E ls st')
      | None \<Rightarrow>
          (case sec_current st of
             None \<Rightarrow> section_loop E ls st
           | Some cur \<Rightarrow>
               (case (case re_match (NUMBERED_STEP E) line of
                        Some m \<Rightarrow> Some m
                      | None \<Rightarrow> re_match BULLET_STEP line) of
                  Some (rest, c) \<Rightarrow>
                    (case step_line E c cur of
                       Inl e \<Rightarrow> Inl e
                     | Inr cur' \<Rightarrow> section_loop E ls (st\<lparr> sec_current := Some cur' \<rparr>))
                | None \<Rightarrow>
                    (case re_search (EXPECTED E) line of
                       Some (rest, c) \<Rightarrow>
                         (if \<not> startswith line (S ''#'') then
                            (case group c 1 1 of
                               Inl e \<Rightarrow> Inl e
                             | Inr x \<Rightarrow>
                                 section_loop E ls
                                   (st\<lparr> sec_current := Some (cur\<lparr> pc_expected_result := strip x \<rparr>) \<rparr>))
                          else section_loop E ls st)
                     | None \<Rightarrow> section_loop E ls st))))"

definition parse_sections :: "pyenv \<Rightarrow> pystr list \<Rightarrow> pystr + parsed_case list" where
  "parse_sections E lines =
     (case section_loop E lines \<lparr> sec_cases = [], sec_current = None, sec_counter = 0 \<rparr> of
        Inl e \<Rightarrow> Inl e
      | Inr st \<Rightarrow> Inr (save_current st))"

subsection \<open>The meta block and the choice of strategy\<close>

text \<open>The meta data of the suite; its \<open>date\<close>, today's, is a reading of the clock and is
  left out.\<close>

record meta =
  m_title :: pystr
  m_base_url :: pystr
  m_environment :: pystr
  m_tested_by :: pystr

record suite =
  su_meta :: meta
  su_test_cases :: "parsed_case list"

text \<open>\<open>_URL_RE\<close>, with the whole match as group 0, and the keyword patterns of the
  meta block, all searched under \<open>re.I\<close>.\<close>

definition URL_RE :: rx where
  "URL_RE = Grp 0 (seqs [Lit (S ''http''), Rep True 0 (Some 1) (\<lambda>c. c = 115), Lit (S ''://''),
                         Rep True 1 None (\<lambda>c. \<not> py_isspace c \<and> c \<notin> set [34, 39, 62])])"

definition META_URL :: "pyenv \<Rightarrow> rx" where
  "META_URL E = alts [ilit E (S ''URL''),
                      seqs [ilit E (S ''base''), Rep True 0 (Some 1) dot, ilit E (S ''url'')],
                      ilit E [32178, 22336], ilit E [32178, 31449]]"

definition META_TITLE :: "pyenv \<Rightarrow> rx" where
  "META_TITLE E = ialts E [S ''title'', [21517, 31281], [28204, 35430, 21517], S ''project'']"

definition META_ENV :: "pyenv \<Rightarrow> rx" where
  "META_ENV E = ialts E [[29872, 22659], S ''environment'', S ''env'']"

definition META_BY :: "pyenv \<Rightarrow> rx" where
  "META_BY E = ialts E [S ''author'', S ''by'', S ''by'', [25776, 23531, 32773], S ''PM'', S ''SA'']"

text \<open>\<open>re.split(r"[...:\t]+", line, maxsplit=1)\<close> on the colon, U+FF1A and the tab: the
  text before the first run of separators and the text after it, or the line alone.\<close>

definition is_meta_sep :: "nat \<Rightarrow> bool" where
  "is_meta_sep c \<longleftrightarrow> c = 65306 \<or> c = 58 \<or> c = 9"

definition split_first :: "pystr \<Rightarrow> pystr list" where
  "split_first line =
     (if list_ex is_meta_sep line
      then [takeWhile (\<lambda>c. \<not> is_meta_sep c) line,
            dropWhile is_meta_sep (dropWhile (\<lambda>c. \<not> is_meta_sep c) line)]
      else [line])"

text \<open>The value after the separator when the line mentions the keyword and splits in
  two; otherwise the old value.\<close>

definition meta_field :: "rx \<Rightarrow> pystr \<Rightarrow> pystr \<Rightarrow> pystr" where
  "meta_field keyword line old =
     (if re_search keyword line \<noteq> None then
        (case split_first line of [a, b] \<Rightarrow> strip b | _ \<Rightarrow> old)
      else old)"

definition meta_line :: "pyenv \<Rightarrow> meta \<Rightarrow> pystr \<Rightarrow> meta" where
  "meta_line E m line =
     (let url = (if re_search (META_URL E) line \<noteq> None then
                   (case re_search URL_RE line of
                      Some (rest, c) \<Rightarrow> (if m_base_url m = [] then get_or (c 0) [] else m_base_url m)
                    | None \<Rightarrow> m_base_url m)
                 else m_base_url m)
      in \<lparr> m_title = meta_field (META_TITLE E) line (m_title m),
           m_base_url = url,
           m_environment = meta_field (META_ENV E) line (m_environment m),
           m_tested_by = meta_field (META_BY E) line (m_tested_by m) \<rparr>)"

definition detect_meta :: "pyenv \<Rightarrow> pystr list \<Rightarrow> pystr \<Rightarrow> meta" where
  "detect_meta E lines base_url =
     foldl (meta_line E)
       \<lparr> m_title = S ''Test Suite'', m_base_url = base_url, m_environment = [], m_tested_by = [] \<rparr>
       (take 20 lines)"

text \<open>The single case made when no strategy found one.  Its description has a dash,
  U+2014.\<close>

definition exploratory_case :: "meta \<Rightarrow> parsed_case" where
  "exploratory_case m =
     \<lparr> pc_id = S ''TC-001'', pc_name = S ''Exploratory Test'',
       pc_description = S ''Parsed from unstructured Word document '' @ [8212]
                        @ S '' please edit steps manually'',
       pc_steps = [target_step (S ''goto'') (m_base_url m), screenshot_step (S ''home'')],
       pc_expected_result = S ''Page loads without errors'' \<rparr>"

definition parse_markdown_to_cases :: "pyenv \<Rightarrow> pystr \<Rightarrow> pystr \<Rightarrow> pystr + suite" where
  "parse_markdown_to_cases E md base_url =
     (let lines = splitlines md;
          m = detect_meta E lines base_url
      in case parse_table_cases E lines of
           Inl e \<Rightarrow> Inl e
         | Inr table_cases \<Rightarrow>
             if table_cases \<noteq> [] then Inr \<lparr> su_meta = m, su_test_cases = table_cases \<rparr>
             else
               (case parse_grid_table_cases E md of
                  Inl e \<Rightarrow> Inl e
                | Inr grid_cases \<Rightarrow>
                    if grid_cases \<noteq> [] then Inr \<lparr> su_meta = m, su_test_cases = grid_cases \<rparr>
                    else
                      (case parse_sections E lines of
                         Inl e \<Rightarrow> Inl e
                       | Inr test_cases \<Rightarrow>
                           Inr \<lparr> su_meta = m,
                                 su_test_cases = (if test_cases = [] then [exploratory_case m]
                                                  else test_cases) \<rparr>)))"

section \<open>parse\_docx.py: the direct reading of the Word tables\<close>

text \<open>
  \<open>main\<close> of \<open>parse_docx.py\<close> from the Markdown that pandoc produced on.  The document
  as \<open>python-docx\<close> reads it is either an exception (the import or the opening failed)
  or its tables, each a list of rows, each row the texts of its cells.  The header
  row is the one with a cell U+9805 U+76EE U+5E8F or U+6E2C U+8A66 U+9805 U+76EE; the
  keys are U+6E2C U+8A66 U+9805 U+76EE for the name, U+64CD U+4F5C U+6B65 U+9A5F for the
  steps and U+9810 U+671F U+7D50 U+679C for the expected result, each with its English
  aliases.
\<close>

definition docx_cell :: "pystr \<Rightarrow> pystr" where
  "docx_cell text = map (\<lambda>c. if c = 10 then 32 else c) (strip text)"

fun docx_rows ::
  "pyenv \<Rightarrow> pystr list list \<Rightarrow> pystr list \<Rightarrow> parsed_case list \<Rightarrow> pystr + parsed_case list"
where
  "docx_rows E [] headers cases = Inr cases"
| "docx_rows E (row # rows) headers cases =
     (let cells = map docx_cell row in
      if [38917, 30446, 24207] \<in> set cells \<or> [28204, 35430, 38917, 30446] \<in> set cells then
        docx_rows E rows (map (str_lower E) cells) cases
      else if headers \<noteq> [] \<and> length cells = length headers then
        (let row_dict = row_of headers cells;
             name_val = get_first row_dict [[28204, 35430, 38917, 30446], S ''test case'', S ''name''];
             steps_raw = get_first row_dict [[25805, 20316, 27493, 39519], S ''steps'', S ''step''];
             expected = get_first row_dict [[38928, 26399, 32080, 26524], S ''expected result'',
                                            S ''expected'']
         in if name_val = []
               \<or> name_val \<in> set [[28204, 35430, 38917, 30446], S ''test case'', S ''name'']
            then docx_rows E rows headers cases
            else
              (case infer_steps E is_step_sep steps_raw of
                 Inl e \<Rightarrow> Inl e
               | Inr step_list \<Rightarrow>
                   docx_rows E rows headers
                     (cases @
                      [\<lparr> pc_id = tc_label (length cases + 1),
                         pc_name = name_val,
                         pc_description = steps_raw,
                         pc_steps = (if step_list \<noteq> [] then step_list else [goto_root]),
                         pc_expected_result = expected \<rparr>])))
      else docx_rows E rows headers cases)"

fun docx_tables :: "pyenv \<Rightarrow> pystr list list list \<Rightarrow> parsed_case list \<Rightarrow> pystr + parsed_case list"
where
  "docx_tables E [] cases = Inr cases"
| "docx_tables E (table # tables) cases =
     (case docx_rows E table [] cases of
        Inl e \<Rightarrow> Inl e
      | Inr cases' \<Rightarrow> docx_tables E tables cases')"

definition docx_pass :: "pyenv \<Rightarrow> pystr + pystr list list list \<Rightarrow> pystr + parsed_case list" where
  "docx_pass E doc = (case doc of Inl e \<Rightarrow> Inl e | Inr tables \<Rightarrow> docx_tables E tables [])"

text \<open>\<open>main\<close>: the payload of the Markdown strategies, overwritten by the cases of the
  direct reading when there are any; an exception of the direct reading is caught
  and leaves the payload as it was.\<close>

definition parse_docx_main ::
  "pyenv \<Rightarrow> pystr \<Rightarrow> pystr \<Rightarrow> pystr + pystr list list list \<Rightarrow> pystr + suite"
where
  "parse_docx_main E md base_url doc =
     (case parse_markdown_to_cases E md base_url of
        Inl e \<Rightarrow> Inl e
      | Inr payload \<Rightarrow>
          (case docx_pass E doc of
             Inl e \<Rightarrow> Inr payload
           | Inr docx_cases \<Rightarrow>
               if docx_cases \<noteq> [] then Inr (payload\<lparr> su_test_cases := docx_cases \<rparr>)
               else Inr payload))"

section \<open>Concrete environments for evaluation\<close>

text \<open>An instance of the library parameters that is exact on ASCII text and POSIX
  paths (beyond ASCII it takes the CJK ideographs U+4E00 to U+9FFF for word characters), and a browser on which every click times out while everything else works.\<close>

definition ascii_env :: pyenv where
  "ascii_env = \<lparr> str_lower = map (\<lambda>c. if 65 \<le> c \<and> c \<le> 90 then c + 32 else c),
       str_isdigit = (\<lambda>s. s \<noteq> [] \<and> list_all (\<lambda>c. 48 \<le> c \<and> c \<le> 57) s),
       int_of_str = (\<lambda>s. Inr (foldl (\<lambda>a c. 10 * a + (c - 48)) 0 s)),
       path_join = (\<lambda>d n. d @ [47] @ n),
       path_name = (\<lambda>p. last (split_on (\<lambda>c. c = 47) p)),
       format_exc = (\<lambda>e. S ''Traceback: '' @ e),
       re_digit = (\<lambda>c. 48 \<le> c \<and> c \<le> 57),
       re_word = (\<lambda>c. (48 \<le> c \<and> c \<le> 57) \<or> (65 \<le> c \<and> c \<le> 90) \<or> c = 95
                       \<or> (97 \<le> c \<and> c \<le> 122) \<or> (19968 \<le> c \<and> c \<le> 40959)),
       re_ieq = (\<lambda>p c. (if 65 \<le> p \<and> p \<le> 90 then p + 32 else p)
                        = (if 65 \<le> c \<and> c \<le> 90 then c + 32 else c)) \<rparr>"

definition stuck_reply :: "cmd \<Rightarrow> reply" where
  "stuck_reply c =
     (case c of
        Click sel i t \<Rightarrow> Raised (S ''Timeout'')
      | Count sel \<Rightarrow> Num 3
      | InnerText sel t \<Rightarrow> Str (S ''Welcome'')
      | Url \<Rightarrow> Str (S ''https://example.com/'')
      | Title \<Rightarrow> Str (S ''Home'')
      | _ \<Rightarrow> Done)"

definition stuck_browser :: "unit browser" where
  "stuck_browser c w = (stuck_reply c, w)"

definition click_login :: step where
  "click_login = \<lparr> s_action = Some (S ''click''), s_target = Some (S ''Login''),
                   s_value = None, s_name = None \<rparr>"

definition mk_step :: "string \<Rightarrow> string \<Rightarrow> step" where
  "mk_step a t = \<lparr> s_action = Some (S a), s_target = Some (S t), s_value = None, s_name = None \<rparr>"

definition login_case :: test_case where
  "login_case = \<lparr> tc_id = Some (S ''TC-001''), tc_name = Some (S ''Login''),
     tc_steps = [mk_step ''goto'' ''/login'', mk_step ''click'' ''Login'',
                 (mk_step ''fill'' ''#user'')\<lparr> s_value := Some (S ''bob'') \<rparr>,
                 mk_step ''assert_visible'' ''Welcome'',
                 \<lparr> s_action = Some (S ''screenshot''), s_target = None, s_value = None,
                   s_name = Some (S ''end'') \<rparr>] \<rparr>"

definition home_case :: test_case where
  "home_case = \<lparr> tc_id = Some (S ''TC-002''), tc_name = Some (S ''Home''),
     tc_steps = [mk_step ''goto'' ''/'',
                 \<lparr> s_action = Some (S ''screenshot''), s_target = None, s_value = None,
                   s_name = Some (S ''home'') \<rparr>] \<rparr>"

definition demo_args :: args where
  "demo_args = \<lparr> a_filter = None, a_base_url = S ''https://example.com'', a_video = False,
                 a_headed = False, a_timeout = 30, a_output_dir = S ''reports'' \<rparr>"

definition demo_payload :: payload where
  "demo_payload = \<lparr> p_base_url = None, p_test_cases = [login_case, home_case] \<rparr>"

text \<open>A browser on which no element ever becomes visible, and a case whose assertion
  therefore fails before a click.\<close>

definition hidden_reply :: "cmd \<Rightarrow> reply" where
  "hidden_reply c =
     (case c of
        WaitVisible sel t \<Rightarrow> Raised (S ''Timeout'')
      | Count sel \<Rightarrow> Num 1
      | InnerText sel t \<Rightarrow> Str (S ''Welcome'')
      | Url \<Rightarrow> Str (S ''https://example.com/'')
      | Title \<Rightarrow> Str (S ''Home'')
      | _ \<Rightarrow> Done)"

definition hidden_browser :: "unit browser" where
  "hidden_browser c w = (hidden_reply c, w)"

definition assert_case :: test_case where
  "assert_case = \<lparr> tc_id = Some (S ''TC-003''), tc_name = Some (S ''Assert''),
     tc_steps = [mk_step ''goto'' ''/'', mk_step ''assert_visible'' ''Welcome'',
                 mk_step ''click'' ''Login''] \<rparr>"

text \<open>A browser whose page is lost at the first click: the click raises, and from
  then on so does every screenshot.  Its world is the flag "the page is lost".\<close>

definition crash_browser :: "bool browser" where
  "crash_browser c lost =
     (case c of
        Click sel i t \<Rightarrow> (Raised (S ''Target closed''), True)
      | Count sel \<Rightarrow> (Num 1, lost)
      | Screenshot p \<Rightarrow> (if lost then Raised (S ''Target closed'') else Done, lost)
      | _ \<Rightarrow> (Done, lost))"

text \<open>A case whose third step has no \<open>action\<close> key.\<close>

definition keyless_case :: test_case where
  "keyless_case = \<lparr> tc_id = Some (S ''TC-004''), tc_name = Some (S ''Keyless''),
     tc_steps = [mk_step ''goto'' ''/'', mk_step ''click'' ''Login'',
                 \<lparr> s_action = None, s_target = Some (S ''#user''), s_value = None,
                   s_name = None \<rparr>,
                 (mk_step ''fill'' ''#user'')\<lparr> s_value := Some (S ''bob'') \<rparr>] \<rparr>"

text \<open>A Markdown text with a pipe table of one case followed by a grid table of one
  row, and a Word document with one table of one case.\<close>

definition demo_md :: pystr where
  "demo_md = S ''| ID | Name | Steps |'' @ [10]
           @ S ''|----|------|-------|'' @ [10]
           @ S ''| T1 | Login | click Login |'' @ [10]
           @ [10]
           @ S ''+---+------+'' @ [10]
           @ S ''| 1 | Home |'' @ [10]
           @ S ''+---+------+'' @ [10]"

definition demo_table_case :: parsed_case where
  "demo_table_case =
     \<lparr> pc_id = S ''T1'', pc_name = S ''Login'', pc_description = [],
       pc_steps = [target_step (S ''click'') (S ''Login'')], pc_expected_result = [] \<rparr>"

definition demo_grid_case :: parsed_case where
  "demo_grid_case =
     \<lparr> pc_id = S ''TC-001'', pc_name = S ''Home'', pc_description = [],
       pc_steps = [goto_root, screenshot_step (S ''TC-001_final'')], pc_expected_result = [] \<rparr>"

definition demo_doc :: "pystr + pystr list list list" where
  "demo_doc = Inr [[[[38917, 30446, 24207], [28204, 35430, 38917, 30446],
                     [25805, 20316, 27493, 39519], [38928, 26399, 32080, 26524]],
                    [S ''1'', S ''Search'', S ''click Search'', S ''ok'']]]"

definition demo_docx_case :: parsed_case where
  "demo_docx_case =
     \<lparr> pc_id = S ''TC-001'', pc_name = S ''Search'', pc_description = S ''click Search'',
       pc_steps = [target_step (S ''click'') (S ''Search'')], pc_expected_result = S ''ok'' \<rparr>"

text \<open>The same Markdown text without its pipe table.\<close>

definition demo_grid_md :: pystr where
  "demo_grid_md = S ''+---+------+'' @ [10]
                @ S ''| 1 | Home |'' @ [10]
                @ S ''+---+------+'' @ [10]"

text \<open>The defining equations, for evaluating the model on concrete inputs.\<close>

lemmas ev = S_def py_isspace_def lstrip_def rstrip_def strip_def lstrip_ch_def rstrip_ch_def
  startswith_def removeprefix_def str_nat.simps fmt02_def ret_def andthen_def call_def
  call_num_def call_str_def call_opt_def logged_def get_or_def HTML_TAGS_def
  selector_or_text_def do_click_def do_fill_def int_or_def quote_def dispatch_def
  step_file_def try_block_def fail_path_def execute_step_def is_goto_def resolve_step_def
  resolve_steps_def SKIPPED_ACTIONS_def FAILING_ACTIONS_def init_state_def skipped_result_def
  falsy_def record_result_def open_page_def save_video_def run_test_case_def apply_filter_def
  count_status_def build_summary_def main_def ascii_env_def stuck_reply_def stuck_browser_def
  click_login_def mk_step_def login_case_def home_case_def demo_args_def demo_payload_def
  hidden_reply_def hidden_browser_def assert_case_def world_after_def
  crash_browser_def keyless_case_def
  ARROW_def is_sep_def ARROW_VERBS_def CLICK_VERB_def arrow_parts_def verb_match_def
  resolve_fragment_def resolve_arrow_chains_def
  rep_greedy.simps rep_lazy.simps rmatch.simps re_match_def re_search.simps ngroups.simps
  sets.simps group_def seqs.simps alts.simps lits_def ilit_def ialts_def icls_def dot_def
  SP0_def SP1_def DOTS0_def DOTS1_def LAZY1_def QUOTE1_def OPENQ_def CLOSEQ_def OPTCH_def
  CONTAINS_def SEARCH_INPUT_SELECTORS_def STEP_ACTION_PATTERNS_def ZH_GOTO_VERBS_def
  ZH_CLICK_VERBS_def ZH_FILL_VERBS_def ZH_ASSERT_VERBS_def ZH_BROWSE_KEYWORDS_def
  STEP_MARKER_def QUOTED_def sub_prefix_def strip_chars_def target_step_def value_step_def
  screenshot_step_def step_of_match_def first_pass.simps sanitize_def second_pass_def
  unmarked_def infer_step_def rule_text_def matches_no_rule_def dec_def
  ieq_prefix_def drop_one.simps spec_marker_rest_def spec_without_marker_def
  spec_unmarked_def
  is_linebreak_def lines_from.simps splitlines_def fmt03_def tc_label_def collect.simps
  infer_steps_def is_step_sep_def row_of_def get_first.simps goto_root_def SEPARATOR_CELL_def
  pipe_cells_def table_loop.simps parse_table_cases_def GRID_BORDER_def grid_blocks.simps
  sub_group1.simps BOLD_def flatten_cell_lines_def extract_row_cells_def GRID_HEADER_def
  grid_loop.simps parse_grid_table_cases_def TC_HEADER_def TC_KEYWORD_def NUMBERED_STEP_def
  BULLET_STEP_def EXPECTED_def save_current_def open_case_def step_line_def section_loop.simps
  parse_sections_def URL_RE_def META_URL_def META_TITLE_def META_ENV_def META_BY_def
  is_meta_sep_def split_first_def meta_field_def meta_line_def detect_meta_def
  exploratory_case_def parse_markdown_to_cases_def docx_cell_def docx_rows.simps
  docx_tables.simps docx_pass_def parse_docx_main_def demo_md_def demo_table_case_def
  demo_grid_case_def demo_doc_def demo_docx_case_def demo_grid_md_def join.simps
  step_loop.simps Let_def upt_conv_Cons

section \<open>Properties of the action executor\<close>

lemma S_eq_iff [simp]: "S a = S b \<longleftrightarrow> a = b"
  unfolding S_def by (simp add: inj_map_eq_map inj_of_char)

text \<open>
  Claim C8.  Whatever the step and its action, an exception raised inside the \<open>try\<close>
  block of \<open>execute_step\<close> does not leave it: \<open>execute_step\<close> returns a result whose
  status is \<open>failed\<close> and whose error is the text of the exception, after exactly one
  more browser command, the screenshot to the \<open>..._FAIL.png\<close> path; if that screenshot
  raises as well, the exception is dropped and the result has no screenshot.
\<close>

theorem execute_step_failure:
  assumes "try_block E b step dir tid idx w = (Inl e, w1)"
  shows "r_status (fst (execute_step E b step dir tid idx w)) = S ''failed''
       \<and> r_error (fst (execute_step E b step dir tid idx w)) = Some e
       \<and> snd (execute_step E b step dir tid idx w)
           = snd (b (Screenshot (fail_path E dir tid idx)) w1)
       \<and> r_screenshot (fst (execute_step E b step dir tid idx w))
           = (case fst (b (Screenshot (fail_path E dir tid idx)) w1) of
                Raised e' \<Rightarrow> None
              | _ \<Rightarrow> Some (path_name E (fail_path E dir tid idx)))"
  using assms
  by (simp add: execute_step_def Let_def split: prod.splits reply.splits)

theorem execute_step_failure_witness:
  "try_block ascii_env (logged stuck_browser) click_login (S ''shots'') (S ''TC-001'') 1 ((), [])
     = (Inl (S ''Timeout''),
        ((), [Click (S ''text=Login'') 0 10000, Count (S ''text=Login''),
              Click (S ''text=Login'') 1 3000, Click (S ''text=Login'') 2 3000]))
   \<and> r_status (fst (execute_step ascii_env (logged stuck_browser) click_login
                      (S ''shots'') (S ''TC-001'') 1 ((), []))) = S ''failed''
   \<and> r_error (fst (execute_step ascii_env (logged stuck_browser) click_login
                      (S ''shots'') (S ''TC-001'') 1 ((), []))) = Some (S ''Timeout'')
   \<and> r_screenshot (fst (execute_step ascii_env (logged stuck_browser) click_login
                      (S ''shots'') (S ''TC-001'') 1 ((), [])))
       = Some (S ''TC-001_step_01_FAIL.png'')"
proof -
  have h: "try_block ascii_env (logged stuck_browser) click_login (S ''shots'') (S ''TC-001'') 1 ((), [])
     = (Inl (S ''Timeout''),
        ((), [Click (S ''text=Login'') 0 10000, Count (S ''text=Login''),
              Click (S ''text=Login'') 1 3000, Click (S ''text=Login'') 2 3000]))"
    by (simp add: ev)
  have s: "r_screenshot (fst (execute_step ascii_env (logged stuck_browser) click_login
                      (S ''shots'') (S ''TC-001'') 1 ((), [])))
       = Some (S ''TC-001_step_01_FAIL.png'')"
    by (simp add: ev)
  from execute_step_failure [OF h] h s show ?thesis by simp
qed

section \<open>Properties of the case runner and of the summary\<close>

lemma record_result_status:
  "tc_status st = S ''passed'' \<or> tc_status st = S ''failed'' \<Longrightarrow>
   tc_status (record_result a r st) = S ''passed'' \<or> tc_status (record_result a r st) = S ''failed''"
  by (simp add: record_result_def Let_def)

text \<open>The three ways through one iteration of the loop.\<close>

lemma step_loop_skip:
  assumes "interaction_failed st" "get_or (s_action step) [] \<in> set SKIPPED_ACTIONS"
  shows "step_loop E b dir tid idx (step # rest) st w
       = step_loop E b dir tid (Suc idx) rest
           (st\<lparr> step_results := step_results st @ [skipped_result idx step] \<rparr>) w"
  using assms by (simp add: Let_def)

lemma step_loop_abort:
  assumes "\<not> (interaction_failed st \<and> get_or (s_action step) [] \<in> set SKIPPED_ACTIONS)"
    and "s_action step = None"
  shows "step_loop E b dir tid idx (step # rest) st w = (st, Some (quote (S ''action'')), w)"
proof -
  from assms have "\<not> (interaction_failed st \<and> get_or None [] \<in> set SKIPPED_ACTIONS)" by simp
  with assms(2) show ?thesis by (auto simp: Let_def)
qed

lemma step_loop_exec:
  assumes "\<not> (interaction_failed st \<and> get_or (s_action step) [] \<in> set SKIPPED_ACTIONS)"
    and "s_action step \<noteq> None"
    and "execute_step E b step dir tid idx w = (r, w')"
  shows "step_loop E b dir tid idx (step # rest) st w
       = step_loop E b dir tid (Suc idx) rest (record_result (get_or (s_action step) []) r st) w'"
  using assms by (auto simp: Let_def)

declare step_loop.simps(2) [simp del]

lemma step_loop_status:
  "tc_status st = S ''passed'' \<or> tc_status st = S ''failed'' \<Longrightarrow>
   tc_status (fst (step_loop E b dir tid idx steps st w)) = S ''passed''
   \<or> tc_status (fst (step_loop E b dir tid idx steps st w)) = S ''failed''"
proof (induction steps arbitrary: idx st w)
  case Nil
  then show ?case by simp
next
  case (Cons step rest)
  show ?case
  proof (cases "interaction_failed st \<and> get_or (s_action step) [] \<in> set SKIPPED_ACTIONS")
    case True
    then have sk: "interaction_failed st" "get_or (s_action step) [] \<in> set SKIPPED_ACTIONS"
      by simp_all
    have "tc_status (st\<lparr> step_results := step_results st @ [skipped_result idx step] \<rparr>) = S ''passed''
        \<or> tc_status (st\<lparr> step_results := step_results st @ [skipped_result idx step] \<rparr>) = S ''failed''"
      using Cons.prems by simp
    from Cons.IH [OF this] show ?thesis by (simp add: step_loop_skip [OF sk])
  next
    case False
    show ?thesis
    proof (cases "s_action step = None")
      case True
      from Cons.prems show ?thesis by (simp add: step_loop_abort [OF False True])
    next
      case noact: False
      obtain r w' where ex: "execute_step E b step dir tid idx w = (r, w')"
        by (cases "execute_step E b step dir tid idx w")
      from Cons.IH [OF record_result_status [OF Cons.prems]]
      show ?thesis by (simp add: step_loop_exec [OF False noact ex])
    qed
  qed
qed

lemma run_test_case_status:
  assumes "run_test_case E b tc base sdir vdir rv w = (Inr r, w')"
  shows "cr_status r = S ''passed'' \<or> cr_status r = S ''failed''"
proof -
  from assms obtain name where nm: "tc_name tc = Some name"
    by (cases "tc_name tc") (simp_all add: run_test_case_def Let_def)
  from assms nm obtain w0 where op: "open_page b vdir rv w = (Inr (), w0)"
    by (cases "open_page b vdir rv w") (auto simp: run_test_case_def Let_def andthen_def split: sum.splits)
  from assms nm op obtain rs where rs: "resolve_steps base (tc_steps tc) = Inr rs"
    by (cases "resolve_steps base (tc_steps tc)") (simp_all add: run_test_case_def Let_def andthen_def)
  obtain st exc w1 where lp:
    "step_loop E b sdir (get_or (tc_id tc) (S ''TC-???'')) 0 rs init_state w0 = (st, exc, w1)"
    by (cases "step_loop E b sdir (get_or (tc_id tc) (S ''TC-???'')) 0 rs init_state w0") auto
  have "tc_status init_state = S ''passed'' \<or> tc_status init_state = S ''failed''"
    by (simp add: init_state_def)
  from step_loop_status [OF this, of E b sdir "get_or (tc_id tc) (S ''TC-???'')" 0 rs w0] lp
  have st: "tc_status st = S ''passed'' \<or> tc_status st = S ''failed''" by simp
  from assms nm op rs lp
  have "cr_status r = tc_status st \<or> cr_status r = S ''failed''"
    by (auto simp: run_test_case_def Let_def andthen_def ret_def split: sum.splits option.splits prod.splits)
  with st show ?thesis by auto
qed

lemma run_all_results:
  "run_all E b base sdir vdir rv tcs w = (Inr rs, w') \<Longrightarrow>
   length rs = length tcs
   \<and> (\<forall>r \<in> set rs. cr_status r = S ''passed'' \<or> cr_status r = S ''failed'')"
proof (induction tcs arbitrary: rs w)
  case Nil
  then show ?case by (simp add: ret_def)
next
  case (Cons tc tcs)
  from Cons.prems obtain r w1 where r: "run_test_case E b tc base sdir vdir rv w = (Inr r, w1)"
    by (cases "run_test_case E b tc base sdir vdir rv w")
       (auto simp: andthen_def split: sum.splits)
  from Cons.prems r obtain rs' where rs': "run_all E b base sdir vdir rv tcs w1 = (Inr rs', w')"
    and eq: "rs = r # rs'"
    by (cases "run_all E b base sdir vdir rv tcs w1")
       (auto simp: andthen_def ret_def split: sum.splits)
  from Cons.IH [OF rs'] run_test_case_status [OF r] eq show ?case by auto
qed

lemma main_results:
  assumes "main E b a p w = (Inr out, w')"
  shows "length (o_test_cases out) = length (apply_filter (a_filter a) (p_test_cases p))
       \<and> (\<forall>r \<in> set (o_test_cases out). cr_status r = S ''passed'' \<or> cr_status r = S ''failed'')
       \<and> o_summary out = build_summary (o_test_cases out)"
proof -
  from assms obtain base sdir vdir w0 w1 where
    ra: "run_all E b base sdir vdir (a_video a) (apply_filter (a_filter a) (p_test_cases p)) w0
           = (Inr (o_test_cases out), w1)"
    and sm: "o_summary out = build_summary (o_test_cases out)"
    by (auto simp: main_def Let_def andthen_def ret_def
             split: if_splits sum.splits prod.splits)
  from run_all_results [OF ra] sm show ?thesis by simp
qed

lemma count_two_statuses:
  "\<forall>r \<in> set rs. cr_status r = S ''passed'' \<or> cr_status r = S ''failed'' \<Longrightarrow>
   count_status (S ''passed'') rs + count_status (S ''failed'') rs = length rs
   \<and> count_status (S ''skipped'') rs = 0"
  by (induction rs) (auto simp: count_status_def)

text \<open>
  Claim C3.  Whenever \<open>main\<close> emits a summary, its \<open>total\<close> is the sum of \<open>passed\<close>,
  \<open>failed\<close> and \<open>skipped\<close>, and it is the number of test cases left by the id filter,
  each of which has exactly one result in the output.
\<close>

theorem summary_total:
  assumes "main E b a p w = (Inr out, w')"
  shows "total (o_summary out)
           = passed (o_summary out) + failed (o_summary out) + skipped (o_summary out)
       \<and> total (o_summary out) = length (apply_filter (a_filter a) (p_test_cases p))
       \<and> length (o_test_cases out) = length (apply_filter (a_filter a) (p_test_cases p))"
proof -
  note m = main_results [OF assms]
  from m have st: "\<forall>r \<in> set (o_test_cases out).
      cr_status r = S ''passed'' \<or> cr_status r = S ''failed''" by simp
  from count_two_statuses [OF st] m show ?thesis by (simp add: build_summary_def)
qed

theorem summary_total_witness:
  "(case main ascii_env (logged stuck_browser) demo_args demo_payload ((), []) of
      (Inr out, w') \<Rightarrow>
        total (o_summary out)
          = passed (o_summary out) + failed (o_summary out) + skipped (o_summary out)
        \<and> total (o_summary out) = 2 \<and> length (o_test_cases out) = 2
    | (Inl e, w') \<Rightarrow> False)"
proof -
  have "\<not> isl (fst (main ascii_env (logged stuck_browser) demo_args demo_payload ((), [])))"
    by (simp add: ev)
  then obtain out w' where
    h: "main ascii_env (logged stuck_browser) demo_args demo_payload ((), []) = (Inr out, w')"
    by (cases "main ascii_env (logged stuck_browser) demo_args demo_payload ((), [])";
        cases "fst (main ascii_env (logged stuck_browser) demo_args demo_payload ((), []))") auto
  have n: "length (apply_filter (a_filter demo_args) (p_test_cases demo_payload)) = 2"
    by (simp add: ev)
  from summary_total [OF h] n h show ?thesis by simp
qed

text \<open>
  Claim C9.  The status of a test-case result is \<open>passed\<close> or \<open>failed\<close>, never
  \<open>skipped\<close>; so in every summary that \<open>main\<close> emits the \<open>skipped\<close> count is 0 and
  \<open>total\<close> is \<open>passed + failed\<close>.
\<close>

theorem case_status_two_valued:
  assumes "main E b a p w = (Inr out, w')"
  shows "(\<forall>r \<in> set (o_test_cases out).
            (cr_status r = S ''passed'' \<or> cr_status r = S ''failed'')
            \<and> cr_status r \<noteq> S ''skipped'')
       \<and> skipped (o_summary out) = 0
       \<and> total (o_summary out) = passed (o_summary out) + failed (o_summary out)"
proof -
  note m = main_results [OF assms]
  from m have st: "\<forall>r \<in> set (o_test_cases out).
      cr_status r = S ''passed'' \<or> cr_status r = S ''failed''" by simp
  from count_two_statuses [OF st] m st show ?thesis by (auto simp: build_summary_def)
qed

theorem case_status_two_valued_witness:
  "(case main ascii_env (logged stuck_browser) demo_args demo_payload ((), []) of
      (Inr out, w') \<Rightarrow>
        map cr_status (o_test_cases out) = [S ''failed'', S ''passed'']
        \<and> skipped (o_summary out) = 0
        \<and> total (o_summary out) = passed (o_summary out) + failed (o_summary out)
    | (Inl e, w') \<Rightarrow> False)"
proof -
  have "\<not> isl (fst (main ascii_env (logged stuck_browser) demo_args demo_payload ((), [])))"
    by (simp add: ev)
  then obtain out w' where
    h: "main ascii_env (logged stuck_browser) demo_args demo_payload ((), []) = (Inr out, w')"
    by (cases "main ascii_env (logged stuck_browser) demo_args demo_payload ((), [])";
        cases "fst (main ascii_env (logged stuck_browser) demo_args demo_payload ((), []))") auto
  have "map cr_status (o_test_cases (projr (fst
          (main ascii_env (logged stuck_browser) demo_args demo_payload ((), [])))))
        = [S ''failed'', S ''passed'']"
    by (simp add: ev)
  with h have st: "map cr_status (o_test_cases out) = [S ''failed'', S ''passed'']" by simp
  from case_status_two_valued [OF h] st h show ?thesis by simp
qed

section \<open>The cascading skip\<close>

lemma execute_step_action:
  "r_action (fst (execute_step E b step dir tid idx w)) = get_or (s_action step) []"
  by (simp add: execute_step_def Let_def split: prod.splits sum.splits reply.splits)

lemma step_loop_append:
  "step_loop E b dir tid idx (xs @ ys) st w =
     (case step_loop E b dir tid idx xs st w of
        (st', Some e, w') \<Rightarrow> (st', Some e, w')
      | (st', None, w') \<Rightarrow> step_loop E b dir tid (idx + length xs) ys st' w')"
proof (induction xs arbitrary: idx st w)
  case Nil
  then show ?case by simp
next
  case (Cons step rest)
  show ?case
  proof (cases "interaction_failed st \<and> get_or (s_action step) [] \<in> set SKIPPED_ACTIONS")
    case True
    then have sk: "interaction_failed st" "get_or (s_action step) [] \<in> set SKIPPED_ACTIONS"
      by simp_all
    show ?thesis
      using Cons.IH by (simp add: step_loop_skip [OF sk] split: prod.splits option.splits)
  next
    case False
    show ?thesis
    proof (cases "s_action step = None")
      case True
      show ?thesis by (simp add: step_loop_abort [OF False True])
    next
      case noact: False
      obtain r w' where ex: "execute_step E b step dir tid idx w = (r, w')"
        by (cases "execute_step E b step dir tid idx w")
      show ?thesis using Cons.IH
        by (simp add: step_loop_exec [OF False noact ex] split: prod.splits option.splits)
    qed
  qed
qed

lemma record_result_fields:
  "step_results (record_result a r st) = step_results st @ [r]"
  "interaction_failed (record_result a r st)
     = (interaction_failed st \<or> (r_status r = S ''failed'' \<and> a \<in> set FAILING_ACTIONS))"
  "tc_status (record_result a r st) = S ''failed''
     \<longleftrightarrow> tc_status st = S ''failed'' \<or> r_status r = S ''failed''"
  by (auto simp: record_result_def Let_def)

text \<open>What the loop does to the local variables: every step before the first one
  without an \<open>action\<close> key gets one result, and the loop is left by the \<open>KeyError\<close> at
  that step; \<open>interaction_failed\<close> is set exactly by a failed result whose action is
  one of \<open>FAILING_ACTIONS\<close>, and \<open>tc_status\<close> becomes \<open>failed\<close> exactly by a failed
  result.\<close>

lemma step_loop_effect:
  "step_loop E b dir tid idx steps st w = (st', e, w') \<Longrightarrow>
   \<exists>new. step_results st' = step_results st @ new
        \<and> length new = length (takeWhile (\<lambda>s. s_action s \<noteq> None) steps)
        \<and> (e = None \<longleftrightarrow> (\<forall>s \<in> set steps. s_action s \<noteq> None))
        \<and> (interaction_failed st' \<longleftrightarrow> interaction_failed st
              \<or> (\<exists>rr \<in> set new. r_status rr = S ''failed'' \<and> r_action rr \<in> set FAILING_ACTIONS))
        \<and> (tc_status st' = S ''failed'' \<longleftrightarrow> tc_status st = S ''failed''
              \<or> (\<exists>rr \<in> set new. r_status rr = S ''failed''))"
proof (induction steps arbitrary: idx st w)
  case Nil
  then show ?case by auto
next
  case (Cons step rest)
  let ?a = "get_or (s_action step) []"
  show ?case
  proof (cases "interaction_failed st \<and> ?a \<in> set SKIPPED_ACTIONS")
    case True
    then have sk: "interaction_failed st" "?a \<in> set SKIPPED_ACTIONS" by simp_all
    have act: "s_action step \<noteq> None"
    proof
      assume "s_action step = None"
      then have "?a = []" by (simp add: get_or_def)
      with sk(2) show False by (simp add: SKIPPED_ACTIONS_def S_def)
    qed
    let ?st1 = "st\<lparr> step_results := step_results st @ [skipped_result idx step] \<rparr>"
    from Cons.prems have "step_loop E b dir tid (Suc idx) rest ?st1 w = (st', e, w')"
      by (simp add: step_loop_skip [OF sk])
    from Cons.IH [OF this] obtain new where
      n: "step_results st' = step_results ?st1 @ new"
         "length new = length (takeWhile (\<lambda>s. s_action s \<noteq> None) rest)"
         "e = None \<longleftrightarrow> (\<forall>s \<in> set rest. s_action s \<noteq> None)"
         "interaction_failed st' \<longleftrightarrow> interaction_failed ?st1
            \<or> (\<exists>rr \<in> set new. r_status rr = S ''failed'' \<and> r_action rr \<in> set FAILING_ACTIONS)"
         "tc_status st' = S ''failed'' \<longleftrightarrow> tc_status ?st1 = S ''failed''
            \<or> (\<exists>rr \<in> set new. r_status rr = S ''failed'')"
      by blast
    let ?new = "skipped_result idx step # new"
    have 1: "step_results st' = step_results st @ ?new" using n(1) by simp
    have 2: "length ?new = length (takeWhile (\<lambda>s. s_action s \<noteq> None) (step # rest))"
      using n(2) act by simp
    have 3: "e = None \<longleftrightarrow> (\<forall>s \<in> set (step # rest). s_action s \<noteq> None)"
      using n(3) act by simp
    have 4: "interaction_failed st' \<longleftrightarrow> interaction_failed st
            \<or> (\<exists>rr \<in> set ?new. r_status rr = S ''failed'' \<and> r_action rr \<in> set FAILING_ACTIONS)"
      using n(4) sk(1) by simp
    have 5: "tc_status st' = S ''failed'' \<longleftrightarrow> tc_status st = S ''failed''
            \<or> (\<exists>rr \<in> set ?new. r_status rr = S ''failed'')"
      using n(5) by (simp add: skipped_result_def)
    from 1 2 3 4 5 show ?thesis by blast
  next
    case False
    show ?thesis
    proof (cases "s_action step = None")
      case True
      from Cons.prems have "st' = st" "e = Some (quote (S ''action''))"
        by (simp_all add: step_loop_abort [OF False True])
      with True show ?thesis by auto
    next
      case noact: False
      obtain r w1 where ex: "execute_step E b step dir tid idx w = (r, w1)"
        by (cases "execute_step E b step dir tid idx w")
      let ?st1 = "record_result ?a r st"
      have ra: "r_action r = ?a" using execute_step_action [of E b step dir tid idx w] ex by simp
      from Cons.prems have "step_loop E b dir tid (Suc idx) rest ?st1 w1 = (st', e, w')"
        by (simp add: step_loop_exec [OF False noact ex])
      from Cons.IH [OF this] obtain new where
        n: "step_results st' = step_results ?st1 @ new"
           "length new = length (takeWhile (\<lambda>s. s_action s \<noteq> None) rest)"
           "e = None \<longleftrightarrow> (\<forall>s \<in> set rest. s_action s \<noteq> None)"
           "interaction_failed st' \<longleftrightarrow> interaction_failed ?st1
              \<or> (\<exists>rr \<in> set new. r_status rr = S ''failed'' \<and> r_action rr \<in> set FAILING_ACTIONS)"
           "tc_status st' = S ''failed'' \<longleftrightarrow> tc_status ?st1 = S ''failed''
              \<or> (\<exists>rr \<in> set new. r_status rr = S ''failed'')"
        by blast
      let ?new = "r # new"
      have 1: "step_results st' = step_results st @ ?new"
        using n(1) by (simp add: record_result_fields)
      have 2: "length ?new = length (takeWhile (\<lambda>s. s_action s \<noteq> None) (step # rest))"
        using n(2) noact by simp
      have 3: "e = None \<longleftrightarrow> (\<forall>s \<in> set (step # rest). s_action s \<noteq> None)"
        using n(3) noact by simp
      have 4: "interaction_failed st' \<longleftrightarrow> interaction_failed st
              \<or> (\<exists>rr \<in> set ?new. r_status rr = S ''failed'' \<and> r_action rr \<in> set FAILING_ACTIONS)"
        using n(4) ra by (auto simp: record_result_fields)
      have 5: "tc_status st' = S ''failed'' \<longleftrightarrow> tc_status st = S ''failed''
              \<or> (\<exists>rr \<in> set ?new. r_status rr = S ''failed'')"
        using n(5) by (auto simp: record_result_fields)
      from 1 2 3 4 5 show ?thesis by blast
    qed
  qed
qed

text \<open>The result of a test case that ran to its end, from the loop over its resolved
  steps.\<close>

lemma run_test_case_loop:
  assumes "run_test_case E b tc base sdir vdir rv w = (Inr r, w')"
    and "open_page b vdir rv w = (Inr (), w0)"
    and "resolve_steps base (tc_steps tc) = Inr steps"
    and "step_loop E b sdir (get_or (tc_id tc) (S ''TC-???'')) 0 steps init_state w0 = (st, exc, w1)"
  shows "cr_steps r = step_results st"
    and "cr_status r = (if exc = None then tc_status st else S ''failed'')"
proof -
  from assms(1) obtain name where nm: "tc_name tc = Some name"
    by (cases "tc_name tc") (simp_all add: run_test_case_def Let_def)
  from assms nm show "cr_steps r = step_results st"
    by (auto simp: run_test_case_def Let_def andthen_def ret_def
             split: sum.splits option.splits prod.splits)
  from assms nm show "cr_status r = (if exc = None then tc_status st else S ''failed'')"
    by (auto simp: run_test_case_def Let_def andthen_def ret_def
             split: sum.splits option.splits prod.splits)
qed

lemma takeWhile_holds: "i < length (takeWhile P xs) \<Longrightarrow> P (xs ! i)"
  by (induction xs arbitrary: i) (auto simp: nth_Cons split: if_splits nat.splits)

text \<open>Where the loop stands when it reaches a step \<open>j\<close> for which a result exists:
  the steps before it all ran through, \<open>interaction_failed\<close> is set exactly when one of
  their results is a failed click, fill, select or hover, and step \<open>j\<close> has an action.\<close>

lemma loop_reaches:
  assumes lp: "step_loop E b dir tid 0 steps init_state w0 = (st, exc, w1)"
    and jl: "j < length (step_results st)"
    and aj: "step_loop E b dir tid 0 (take j steps) init_state w0 = (stj, ej, wj)"
  shows "ej = None \<and> step_results stj = take j (step_results st) \<and> j < length steps
       \<and> s_action (steps ! j) \<noteq> None
       \<and> (interaction_failed stj \<longleftrightarrow>
            (\<exists>i<j. r_status (step_results st ! i) = S ''failed''
                  \<and> r_action (step_results st ! i) \<in> set FAILING_ACTIONS))
       \<and> step_loop E b dir tid j (steps ! j # drop (Suc j) steps) stj wj = (st, exc, w1)"
proof -
  let ?has = "\<lambda>s. s_action s \<noteq> None"
  from step_loop_effect [OF lp] have
    n: "length (step_results st) = length (takeWhile ?has steps)"
    by (auto simp: init_state_def)
  from n jl have jt: "j < length (takeWhile ?has steps)" by simp
  have "length (takeWhile ?has steps) \<le> length steps" by (rule length_takeWhile_le)
  with jt have js: "j < length steps" by simp
  from jt have hj: "?has (steps ! j)" by (rule takeWhile_holds)
  have pre: "\<forall>s \<in> set (take j steps). ?has s"
  proof
    fix s assume "s \<in> set (take j steps)"
    then obtain i where i: "i < j" "i < length steps" "s = steps ! i"
      by (auto simp: in_set_conv_nth)
    from i jt have "i < length (takeWhile ?has steps)" by simp
    then have "?has (steps ! i)" by (rule takeWhile_holds)
    with i show "?has s" by simp
  qed
  have sp: "steps = take j steps @ (steps ! j # drop (Suc j) steps)"
    using js by (simp add: id_take_nth_drop [symmetric])
  from step_loop_effect [OF aj] obtain newj where
    nj: "step_results stj = newj"
        "length newj = length (takeWhile ?has (take j steps))"
        "ej = None \<longleftrightarrow> (\<forall>s \<in> set (take j steps). ?has s)"
        "interaction_failed stj \<longleftrightarrow>
           (\<exists>rr \<in> set newj. r_status rr = S ''failed'' \<and> r_action rr \<in> set FAILING_ACTIONS)"
    by (auto simp: init_state_def)
  from nj(3) pre have ejn: "ej = None" by simp
  from pre have tw: "takeWhile ?has (take j steps) = take j steps"
    by (simp add: takeWhile_eq_all_conv)
  have "length (step_results stj) = length (take j steps)"
    using nj(1) nj(2) by (simp only: tw)
  with js have lj: "length (step_results stj) = j" by simp
  have dec: "step_loop E b dir tid 0 steps init_state w0 =
     step_loop E b dir tid (0 + length (take j steps)) (steps ! j # drop (Suc j) steps) stj wj"
    using step_loop_append [of E b dir tid 0 "take j steps" "steps ! j # drop (Suc j) steps"
                               init_state w0] sp aj ejn
    by simp
  from dec lp js
  have rest: "step_loop E b dir tid j (steps ! j # drop (Suc j) steps) stj wj = (st, exc, w1)"
    by (simp add: min_def)
  from step_loop_effect [OF rest] obtain new2 where
    n2: "step_results st = step_results stj @ new2" by blast
  with lj have tk: "step_results stj = take j (step_results st)" by simp
  have "(\<exists>rr \<in> set newj. r_status rr = S ''failed'' \<and> r_action rr \<in> set FAILING_ACTIONS)
        \<longleftrightarrow> (\<exists>i<j. r_status (step_results st ! i) = S ''failed''
                  \<and> r_action (step_results st ! i) \<in> set FAILING_ACTIONS)"
  proof
    assume "\<exists>rr \<in> set newj. r_status rr = S ''failed'' \<and> r_action rr \<in> set FAILING_ACTIONS"
    then obtain rr where rr: "rr \<in> set newj" "r_status rr = S ''failed''"
      "r_action rr \<in> set FAILING_ACTIONS" by blast
    from rr(1) nj(1) lj obtain i where "i < j" "rr = step_results stj ! i"
      by (auto simp: in_set_conv_nth)
    with tk rr show "\<exists>i<j. r_status (step_results st ! i) = S ''failed''
                  \<and> r_action (step_results st ! i) \<in> set FAILING_ACTIONS"
      by auto
  next
    assume "\<exists>i<j. r_status (step_results st ! i) = S ''failed''
                  \<and> r_action (step_results st ! i) \<in> set FAILING_ACTIONS"
    then obtain i where i: "i < j" "r_status (step_results st ! i) = S ''failed''"
      "r_action (step_results st ! i) \<in> set FAILING_ACTIONS" by blast
    from i(1) lj tk have "step_results st ! i = step_results stj ! i" by simp
    moreover from i(1) lj nj(1) have "step_results stj ! i \<in> set newj" by simp
    ultimately show "\<exists>rr \<in> set newj. r_status rr = S ''failed'' \<and> r_action rr \<in> set FAILING_ACTIONS"
      using i by auto
  qed
  with nj(4) have fl: "interaction_failed stj \<longleftrightarrow>
            (\<exists>i<j. r_status (step_results st ! i) = S ''failed''
                  \<and> r_action (step_results st ! i) \<in> set FAILING_ACTIONS)" by simp
  from ejn tk js hj fl rest show ?thesis by simp
qed

text \<open>What the loop does at a step \<open>j\<close> for which a result exists: the step is passed
  over with the fixed \<open>skipped\<close> record, the world untouched, exactly when its action is
  one of \<open>SKIPPED_ACTIONS\<close> and an earlier result is a failed click, fill, select or
  hover; otherwise it is handed to \<open>execute_step\<close>.\<close>

lemma loop_step:
  assumes lp: "step_loop E b dir tid 0 steps init_state w0 = (st, exc, w1)"
    and jl: "j < length (step_results st)"
  shows "r_action (step_results st ! j) = get_or (s_action (steps ! j)) []"
    and "if get_or (s_action (steps ! j)) [] \<in> set SKIPPED_ACTIONS
            \<and> (\<exists>i<j. r_status (step_results st ! i) = S ''failed''
                     \<and> r_action (step_results st ! i) \<in> set FAILING_ACTIONS)
         then step_results st ! j = skipped_result j (steps ! j)
              \<and> world_after E b dir tid steps (Suc j) w0 = world_after E b dir tid steps j w0
         else (step_results st ! j, world_after E b dir tid steps (Suc j) w0)
                = execute_step E b (steps ! j) dir tid j (world_after E b dir tid steps j w0)"
proof -
  obtain stj ej wj where aj: "step_loop E b dir tid 0 (take j steps) init_state w0 = (stj, ej, wj)"
    by (cases "step_loop E b dir tid 0 (take j steps) init_state w0") auto
  from loop_reaches [OF lp jl aj]
  have ej: "ej = None"
    and tk: "step_results stj = take j (step_results st)"
    and js: "j < length steps"
    and act: "s_action (steps ! j) \<noteq> None"
    and fj: "interaction_failed stj \<longleftrightarrow>
            (\<exists>i<j. r_status (step_results st ! i) = S ''failed''
                  \<and> r_action (step_results st ! i) \<in> set FAILING_ACTIONS)"
    and rest: "step_loop E b dir tid j (steps ! j # drop (Suc j) steps) stj wj = (st, exc, w1)"
    by simp_all
  from tk jl have lj: "length (step_results stj) = j" by simp
  have wj: "world_after E b dir tid steps j w0 = wj" by (simp add: world_after_def aj)
  from js have tS: "take (Suc j) steps = take j steps @ [steps ! j]"
    by (simp add: take_Suc_conv_app_nth)
  have wS: "world_after E b dir tid steps (Suc j) w0
              = snd (snd (step_loop E b dir tid j [steps ! j] stj wj))"
    using step_loop_append [of E b dir tid 0 "take j steps" "[steps ! j]" init_state w0] aj ej js
    by (simp add: world_after_def tS min_def)
  let ?a = "get_or (s_action (steps ! j)) []"
  have "r_action (step_results st ! j) = ?a
      \<and> (if ?a \<in> set SKIPPED_ACTIONS \<and> interaction_failed stj
         then step_results st ! j = skipped_result j (steps ! j)
              \<and> world_after E b dir tid steps (Suc j) w0 = world_after E b dir tid steps j w0
         else (step_results st ! j, world_after E b dir tid steps (Suc j) w0)
                = execute_step E b (steps ! j) dir tid j (world_after E b dir tid steps j w0))"
  proof (cases "interaction_failed stj \<and> ?a \<in> set SKIPPED_ACTIONS")
    case True
    then have sk: "interaction_failed stj" "?a \<in> set SKIPPED_ACTIONS" by simp_all
    let ?st1 = "stj\<lparr> step_results := step_results stj @ [skipped_result j (steps ! j)] \<rparr>"
    from rest have "step_loop E b dir tid (Suc j) (drop (Suc j) steps) ?st1 wj = (st, exc, w1)"
      by (simp add: step_loop_skip [OF sk])
    from step_loop_effect [OF this] obtain new where
      "step_results st = step_results ?st1 @ new" by blast
    with lj have rj: "step_results st ! j = skipped_result j (steps ! j)"
      by (simp add: nth_append)
    have "world_after E b dir tid steps (Suc j) w0 = wj"
      by (simp add: wS step_loop_skip [OF sk])
    with rj wj sk show ?thesis by (simp add: skipped_result_def)
  next
    case False
    obtain rr w2 where ex: "execute_step E b (steps ! j) dir tid j wj = (rr, w2)"
      by (cases "execute_step E b (steps ! j) dir tid j wj")
    from rest have "step_loop E b dir tid (Suc j) (drop (Suc j) steps) (record_result ?a rr stj) w2
                      = (st, exc, w1)"
      by (simp add: step_loop_exec [OF False act ex])
    from step_loop_effect [OF this] obtain new where
      "step_results st = step_results (record_result ?a rr stj) @ new" by blast
    with lj have rj: "step_results st ! j = rr"
      by (simp add: nth_append record_result_fields)
    have ra: "r_action rr = ?a" using execute_step_action [of E b "steps ! j" dir tid j wj] ex
      by simp
    have "world_after E b dir tid steps (Suc j) w0 = w2"
      by (simp add: wS step_loop_exec [OF False act ex])
    with rj wj ex False ra show ?thesis by auto
  qed
  with fj show "r_action (step_results st ! j) = ?a"
    and "if ?a \<in> set SKIPPED_ACTIONS
            \<and> (\<exists>i<j. r_status (step_results st ! i) = S ''failed''
                     \<and> r_action (step_results st ! i) \<in> set FAILING_ACTIONS)
         then step_results st ! j = skipped_result j (steps ! j)
              \<and> world_after E b dir tid steps (Suc j) w0 = world_after E b dir tid steps j w0
         else (step_results st ! j, world_after E b dir tid steps (Suc j) w0)
                = execute_step E b (steps ! j) dir tid j (world_after E b dir tid steps j w0)"
    by simp_all
qed





text \<open>A step without an \<open>action\<close> key ends the loop: after a failed click, the fill
  that follows such a step is neither skipped nor executed, and the case is failed.\<close>

lemma keyless_step_ends_loop:
  "(case run_test_case ascii_env (logged stuck_browser) keyless_case (S ''https://example.com'')
           (S ''shots'') (S ''videos'') False ((), []) of
      (Inr r, w') \<Rightarrow>
        map r_action (cr_steps r) = [S ''goto'', S ''click'']
        \<and> map r_status (cr_steps r) = [S ''passed'', S ''failed'']
        \<and> cr_status r = S ''failed''
        \<and> list_all (\<lambda>c. \<forall>sel v t. c \<noteq> Fill sel v t) (snd w')
    | (Inl e, w') \<Rightarrow> False)"
  by (simp add: ev)

text \<open>A screenshot step: its status is decided by the one \<open>page.screenshot\<close> call it
  makes.\<close>

lemma execute_screenshot:
  assumes "s_action s = Some (S ''screenshot'')"
  shows "r_status (fst (execute_step E b s dir tid idx w))
           = (case fst (b (Screenshot (path_join E dir
                  (get_or (s_name s) (step_file tid idx (S ''screenshot'')) @ S ''.png''))) w) of
                Raised e \<Rightarrow> S ''failed''
              | _ \<Rightarrow> S ''passed'')"
  using assms
  by (simp add: execute_step_def try_block_def dispatch_def andthen_def call_def ret_def
                get_or_def Let_def
           split: prod.splits reply.splits sum.splits option.splits)

text \<open>
  Claim C2, as the code has it.  A case whose steps are goto, click, fill,
  assert\_visible, screenshot runs to a result; the goto, executed first, passes, and
  the click, executed next, fails.  Then there are five results: the first four are
  passed, failed, skipped, skipped, the fill and the assertion having the fixed skipped
  record; the fifth is the result of executing the screenshot step in the very world
  the failed click left behind, so nothing was executed in between.  Its status is
  \<open>passed\<close> when the \<open>page.screenshot\<close> call of the step returns and \<open>failed\<close> when that
  call raises.
\<close>

theorem goto_click_fill_assert_screenshot:
  assumes run: "run_test_case E b tc base sdir vdir rv w = (Inr r, w')"
    and op: "open_page b vdir rv w = (Inr (), w0)"
    and steps: "tc_steps tc = [g, c, f, a, s]"
    and acts: "s_action g = Some (S ''goto'')" "s_action c = Some (S ''click'')"
              "s_action f = Some (S ''fill'')" "s_action a = Some (S ''assert_visible'')"
              "s_action s = Some (S ''screenshot'')"
    and g': "resolve_step base g = Inr g'"
    and tid: "tid = get_or (tc_id tc) (S ''TC-???'')"
    and e0: "execute_step E b g' sdir tid 0 w0 = (r0, w1)" and p0: "r_status r0 = S ''passed''"
    and e1: "execute_step E b c sdir tid 1 w1 = (r1, w2)" and p1: "r_status r1 = S ''failed''"
  shows "cr_steps r = [r0, r1, skipped_result 2 f, skipped_result 3 a,
                       fst (execute_step E b s sdir tid 4 w2)]
       \<and> map r_status (cr_steps r)
           = [S ''passed'', S ''failed'', S ''skipped'', S ''skipped'',
              (case fst (b (Screenshot (path_join E sdir
                     (get_or (s_name s) (step_file tid 4 (S ''screenshot'')) @ S ''.png''))) w2) of
                 Raised e \<Rightarrow> S ''failed''
               | _ \<Rightarrow> S ''passed'')]"
proof -
  obtain r4 w3 where e4: "execute_step E b s sdir tid 4 w2 = (r4, w3)"
    by (cases "execute_step E b s sdir tid 4 w2")
  have ag': "s_action g' = Some (S ''goto'')"
    using g' acts(1) by (auto simp: resolve_step_def is_goto_def split: if_splits option.splits)
  have rs: "resolve_steps base (tc_steps tc) = Inr [g', c, f, a, s]"
    using g' acts by (simp add: steps resolve_steps_def resolve_step_def is_goto_def)
  obtain st exc wz where
    lp: "step_loop E b sdir (get_or (tc_id tc) (S ''TC-???'')) 0 [g', c, f, a, s] init_state w0
           = (st, exc, wz)"
    by (cases "step_loop E b sdir (get_or (tc_id tc) (S ''TC-???'')) 0 [g', c, f, a, s]
                 init_state w0") auto
  have "step_results (fst (step_loop E b sdir tid 0 [g', c, f, a, s] init_state w0))
              = [r0, r1, skipped_result 2 f, skipped_result 3 a, r4]"
    using ag' acts e0 e1 e4 p0 p1
    by (simp add: step_loop.simps Let_def record_result_def init_state_def get_or_def
                  SKIPPED_ACTIONS_def FAILING_ACTIONS_def eval_nat_numeral)
  with lp tid have "step_results st = [r0, r1, skipped_result 2 f, skipped_result 3 a, r4]"
    by simp
  with run_test_case_loop(1) [OF run op rs lp]
  have cs: "cr_steps r = [r0, r1, skipped_result 2 f, skipped_result 3 a, r4]" by simp
  from execute_screenshot [OF acts(5), of E b sdir tid 4 w2] e4
  have "r_status r4 = (case fst (b (Screenshot (path_join E sdir
                     (get_or (s_name s) (step_file tid 4 (S ''screenshot'')) @ S ''.png''))) w2) of
                 Raised e \<Rightarrow> S ''failed''
               | _ \<Rightarrow> S ''passed'')"
    by simp
  with cs p0 p1 e4 show ?thesis by (simp add: skipped_result_def)
qed

theorem goto_click_fill_assert_screenshot_witness:
  "(case run_test_case ascii_env (logged stuck_browser) login_case (S ''https://example.com'')
           (S ''shots'') (S ''videos'') False ((), []) of
      (Inr r, w') \<Rightarrow>
        map r_action (cr_steps r)
          = [S ''goto'', S ''click'', S ''fill'', S ''assert_visible'', S ''screenshot'']
        \<and> map r_status (cr_steps r)
          = [S ''passed'', S ''failed'', S ''skipped'', S ''skipped'', S ''passed'']
    | (Inl e, w') \<Rightarrow> False)"
proof -
  let ?B = "logged stuck_browser"
  let ?g' = "mk_step ''goto'' ''https://example.com/login''"
  let ?c = "mk_step ''click'' ''Login''"
  let ?f = "(mk_step ''fill'' ''#user'')\<lparr> s_value := Some (S ''bob'') \<rparr>"
  let ?a = "mk_step ''assert_visible'' ''Welcome''"
  let ?s = "\<lparr> s_action = Some (S ''screenshot''), s_target = None, s_value = None,
              s_name = Some (S ''end'') \<rparr>"
  let ?w0 = "((), [NewPage False])"
  let ?x0 = "execute_step ascii_env ?B ?g' (S ''shots'') (S ''TC-001'') 0 ?w0"
  let ?x1 = "execute_step ascii_env ?B ?c (S ''shots'') (S ''TC-001'') 1 (snd ?x0)"
  have "case run_test_case ascii_env ?B login_case (S ''https://example.com'')
           (S ''shots'') (S ''videos'') False ((), []) of
      (Inr r, w') \<Rightarrow> map r_action (cr_steps r)
          = [S ''goto'', S ''click'', S ''fill'', S ''assert_visible'', S ''screenshot'']
    | (Inl e, w') \<Rightarrow> False"
    by (simp add: ev)
  then obtain r w' where
    h: "run_test_case ascii_env ?B login_case (S ''https://example.com'')
           (S ''shots'') (S ''videos'') False ((), []) = (Inr r, w')"
    and ra: "map r_action (cr_steps r)
          = [S ''goto'', S ''click'', S ''fill'', S ''assert_visible'', S ''screenshot'']"
    by (auto split: prod.splits sum.splits)
  have op: "open_page ?B (S ''videos'') False ((), []) = (Inr (), ?w0)"
    by (simp add: ev)
  have steps: "tc_steps login_case = [mk_step ''goto'' ''/login'', ?c, ?f, ?a, ?s]"
    by (simp add: login_case_def)
  have g': "resolve_step (S ''https://example.com'') (mk_step ''goto'' ''/login'') = Inr ?g'"
    by (simp add: ev)
  have tid: "S ''TC-001'' = get_or (tc_id login_case) (S ''TC-???'')"
    by (simp add: login_case_def get_or_def)
  have p0: "r_status (fst ?x0) = S ''passed''" by (simp add: ev)
  have p1: "r_status (fst ?x1) = S ''failed''" by (simp add: ev)
  have e0: "?x0 = (fst ?x0, snd ?x0)" by simp
  have e1: "?x1 = (fst ?x1, snd ?x1)" by simp
  have a1: "s_action (mk_step ''goto'' ''/login'') = Some (S ''goto'')"
    and a2: "s_action ?c = Some (S ''click'')" and a3: "s_action ?f = Some (S ''fill'')"
    and a4: "s_action ?a = Some (S ''assert_visible'')"
    and a5: "s_action ?s = Some (S ''screenshot'')"
    by (simp_all add: mk_step_def)
  have shot: "(case fst (?B (Screenshot (path_join ascii_env (S ''shots'')
                     (get_or (s_name ?s) (step_file (S ''TC-001'') 4 (S ''screenshot''))
                        @ S ''.png''))) (snd ?x1)) of
                 Raised e \<Rightarrow> S ''failed''
               | _ \<Rightarrow> S ''passed'') = S ''passed''"
    by (simp add: ev)
  note st = goto_click_fill_assert_screenshot
              [OF h op steps a1 a2 a3 a4 a5 g' tid e0 p0 e1 p1, THEN conjunct2, unfolded shot]
  from ra st have "map r_action (cr_steps r)
          = [S ''goto'', S ''click'', S ''fill'', S ''assert_visible'', S ''screenshot'']
        \<and> map r_status (cr_steps r)
          = [S ''passed'', S ''failed'', S ''skipped'', S ''skipped'', S ''passed'']"
    by blast
  then show ?thesis unfolding h prod.case sum.case .
qed

text \<open>
  Claim C2 as stated fails: the goto passing and the click failing do not make the
  final screenshot pass.  On a browser whose page is lost at the click, the screenshot
  step is executed and its capture raises, so the statuses are passed, failed, skipped,
  skipped, failed.
\<close>

theorem goto_click_fill_assert_screenshot_counterexample:
  "(case run_test_case ascii_env (logged crash_browser) login_case (S ''https://example.com'')
           (S ''shots'') (S ''videos'') False (False, []) of
      (Inr r, w') \<Rightarrow>
        map r_action (cr_steps r)
          = [S ''goto'', S ''click'', S ''fill'', S ''assert_visible'', S ''screenshot'']
        \<and> map r_status (cr_steps r)
          = [S ''passed'', S ''failed'', S ''skipped'', S ''skipped'', S ''failed'']
        \<and> Screenshot (S ''shots/end.png'') \<in> set (snd w')
    | (Inl e, w') \<Rightarrow> False)"
  by (simp add: ev)

section \<open>Navigation\<close>

text \<open>What \<open>execute_step\<close> does with a goto step: it navigates to the target as it is
  given, and waits for network idle if the navigation returned.\<close>

lemma execute_goto:
  assumes "s_action step = Some (S ''goto'')" and "s_target step = Some t"
  shows "r_target (fst (execute_step E (logged b) step dir tid idx (w, l))) = t
       \<and> (\<exists>rest. snd (snd (execute_step E (logged b) step dir tid idx (w, l))) = l @ Goto t # rest
            \<and> ((\<forall>e. fst (b (Goto t) w) \<noteq> Raised e) \<longrightarrow> (\<exists>rest'. rest = WaitLoad 15000 # rest')))"
proof -
  obtain rp w1 where g: "b (Goto t) w = (rp, w1)" by (cases "b (Goto t) w")
  obtain rp2 w2 where wl: "b (WaitLoad 15000) w1 = (rp2, w2)" by (cases "b (WaitLoad 15000) w1")
  have "\<exists>rest. snd (snd (execute_step E (logged b) step dir tid idx (w, l))) = l @ Goto t # rest
            \<and> ((\<forall>e. rp \<noteq> Raised e) \<longrightarrow> (\<exists>rest'. rest = WaitLoad 15000 # rest'))"
    using assms g wl
    by (cases rp; cases rp2)
       (auto simp: execute_step_def try_block_def dispatch_def andthen_def call_def ret_def
                   logged_def get_or_def Let_def
             split: prod.splits reply.splits sum.splits option.splits)
  moreover have "r_target (fst (execute_step E (logged b) step dir tid idx (w, l))) = t"
    using assms
    by (simp add: execute_step_def get_or_def Let_def split: prod.splits sum.splits reply.splits)
  ultimately show ?thesis using g by simp
qed

text \<open>The resolved steps of a case that has a goto: one per step of the case, each the
  step as \<open>resolve_step\<close> rewrites it.\<close>

lemma resolve_all_nth:
  "resolve_all base ss = Inr rs \<Longrightarrow>
   length rs = length ss \<and> (\<forall>k < length ss. resolve_step base (ss ! k) = Inr (rs ! k))"
proof (induction ss arbitrary: rs)
  case Nil
  then show ?case by simp
next
  case (Cons s ss)
  from Cons.prems obtain s2 r where
    s2: "resolve_step base s = Inr s2" and r: "resolve_all base ss = Inr r" and rs: "rs = s2 # r"
    by (auto split: sum.splits)
  from Cons.IH [OF r] s2 rs show ?case by (auto simp: nth_Cons split: nat.splits)
qed

lemma resolve_steps_nth:
  assumes "resolve_steps base ss = Inr steps" and "k < length ss" and "is_goto (ss ! k)"
  shows "resolve_step base (ss ! k) = Inr (steps ! k)"
proof -
  from assms(2,3) have "\<exists>s \<in> set ss. is_goto s" using nth_mem by blast
  then have "list_ex is_goto ss" by (simp add: list_ex_iff)
  with assms(1) have "resolve_all base ss = Inr steps"
    by (auto simp: resolve_steps_def split: sum.splits)
  from resolve_all_nth [OF this] assms(2) show ?thesis by simp
qed

text \<open>
  Claim C7, as the code has it.  \<open>execute_step\<close> has no base URL: for a goto step it
  navigates to the target exactly as the step gives it and, when the navigation
  returns, waits for network idle with the 15000 ms timeout.  The joining is done
  before, by \<open>run_test_case\<close>: when a case runs to a result and reaches its step \<open>k\<close>, a
  goto with target \<open>t\<close>, then the step is executed, never skipped, and the browser is
  sent to \<open>t\<close> itself if \<open>t\<close> starts with \<open>http\<close>, to the base URL without trailing slashes,
  a slash, and \<open>t\<close> without leading slashes if \<open>t\<close> starts with \<open>/\<close>, and to the base URL's
  root otherwise; the wait for network idle follows.  The result records the joined
  URL as the target.
\<close>

theorem goto_navigates:
  assumes run: "run_test_case E (logged b) tc base sdir vdir rv wl = (Inr r, wl')"
    and op: "open_page (logged b) vdir rv wl = (Inr (), w0)"
    and rs: "resolve_steps base (tc_steps tc) = Inr steps"
    and tid: "tid = get_or (tc_id tc) (S ''TC-???'')"
    and kk: "k < length (tc_steps tc)" and kr: "k < length (cr_steps r)"
    and a: "s_action (tc_steps tc ! k) = Some (S ''goto'')"
    and t: "s_target (tc_steps tc ! k) = Some t"
    and u: "u = (if startswith t (S ''http'') then t
                 else if startswith t (S ''/'')
                      then rstrip_ch 47 base @ S ''/'' @ lstrip_ch 47 t
                      else rstrip_ch 47 base @ S ''/'')"
    and wk: "world_after E (logged b) sdir tid steps k w0 = (w, l)"
    and a0: "s_action g = Some (S ''goto'')" and t0: "s_target g = Some t'"
  shows "(\<exists>rest. snd (snd (execute_step E (logged b) g dir0 tid0 idx0 (v, l0))) = l0 @ Goto t' # rest
            \<and> ((\<forall>e. fst (b (Goto t') v) \<noteq> Raised e) \<longrightarrow> (\<exists>rest'. rest = WaitLoad 15000 # rest')))
       \<and> r_status (cr_steps r ! k) \<noteq> S ''skipped''
       \<and> r_target (cr_steps r ! k) = u
       \<and> (\<exists>rest. snd (world_after E (logged b) sdir tid steps (Suc k) w0) = l @ Goto u # rest
            \<and> ((\<forall>e. fst (b (Goto u) w) \<noteq> Raised e) \<longrightarrow> (\<exists>rest'. rest = WaitLoad 15000 # rest')))"
proof -
  obtain st exc w1 where lp: "step_loop E (logged b) sdir tid 0 steps init_state w0 = (st, exc, w1)"
    by (cases "step_loop E (logged b) sdir tid 0 steps init_state w0") auto
  from run_test_case_loop(1) [OF run op rs lp [unfolded tid]]
  have cs: "cr_steps r = step_results st" .
  from kr cs have kl: "k < length (step_results st)" by simp
  from a have ig: "is_goto (tc_steps tc ! k)" by (simp add: is_goto_def)
  have same: "(tc_steps tc ! k)\<lparr> s_target := Some t \<rparr> = tc_steps tc ! k"
    using t by (cases "tc_steps tc ! k") simp
  from resolve_steps_nth [OF rs kk ig] a t u same
  have sk: "steps ! k = (tc_steps tc ! k)\<lparr> s_target := Some u \<rparr>"
    by (auto simp: resolve_step_def is_goto_def split: if_splits)
  then have ak: "s_action (steps ! k) = Some (S ''goto'')" and tk: "s_target (steps ! k) = Some u"
    using a by simp_all
  have ns: "\<not> (get_or (s_action (steps ! k)) [] \<in> set SKIPPED_ACTIONS
            \<and> (\<exists>i<k. r_status (step_results st ! i) = S ''failed''
                     \<and> r_action (step_results st ! i) \<in> set FAILING_ACTIONS))"
    by (simp add: ak get_or_def SKIPPED_ACTIONS_def)
  note ex = loop_step(2) [OF lp kl, unfolded if_not_P [OF ns] wk]
  note eg = execute_goto [OF ak tk, of E b sdir tid k w l]
  from ex have r: "step_results st ! k = fst (execute_step E (logged b) (steps ! k) sdir tid k (w, l))"
    and ww: "world_after E (logged b) sdir tid steps (Suc k) w0
               = snd (execute_step E (logged b) (steps ! k) sdir tid k (w, l))"
    by (metis fst_conv, metis snd_conv)
  have st: "r_status (fst (execute_step E (logged b) (steps ! k) sdir tid k (w, l))) \<noteq> S ''skipped''"
    by (simp add: execute_step_def Let_def split: prod.splits sum.splits reply.splits)
  from execute_goto [OF a0 t0, of E b dir0 tid0 idx0 v l0] eg r ww st cs
  show ?thesis by simp
qed

theorem goto_navigates_witness:
  "(case run_test_case ascii_env (logged stuck_browser) login_case (S ''https://example.com/'')
           (S ''shots'') (S ''videos'') False ((), []) of
      (Inr r, w') \<Rightarrow>
        r_target (cr_steps r ! 0) = S ''https://example.com/login''
        \<and> (\<exists>rest. snd (world_after ascii_env (logged stuck_browser) (S ''shots'') (S ''TC-001'')
                     (projr (resolve_steps (S ''https://example.com/'') (tc_steps login_case))) 1
                     ((), [NewPage False]))
             = [NewPage False, Goto (S ''https://example.com/login''), WaitLoad 15000] @ rest)
    | (Inl e, w') \<Rightarrow> False)"
proof -
  let ?B = "logged stuck_browser"
  let ?steps = "projr (resolve_steps (S ''https://example.com/'') (tc_steps login_case))"
  have "\<not> isl (fst (run_test_case ascii_env ?B login_case (S ''https://example.com/'')
           (S ''shots'') (S ''videos'') False ((), [])))
        \<and> length (cr_steps (projr (fst (run_test_case ascii_env ?B login_case
             (S ''https://example.com/'') (S ''shots'') (S ''videos'') False ((), []))))) = 5"
    by (simp add: ev)
  then obtain r w' where
    h: "run_test_case ascii_env ?B login_case (S ''https://example.com/'')
           (S ''shots'') (S ''videos'') False ((), []) = (Inr r, w')"
    and len: "length (cr_steps r) = 5"
    by (cases "run_test_case ascii_env ?B login_case (S ''https://example.com/'')
           (S ''shots'') (S ''videos'') False ((), [])";
        cases "fst (run_test_case ascii_env ?B login_case (S ''https://example.com/'')
           (S ''shots'') (S ''videos'') False ((), []))") auto
  have op: "open_page ?B (S ''videos'') False ((), []) = (Inr (), ((), [NewPage False]))"
    by (simp add: ev)
  have "\<not> isl (resolve_steps (S ''https://example.com/'') (tc_steps login_case))"
    by (simp add: ev)
  then have rs: "resolve_steps (S ''https://example.com/'') (tc_steps login_case) = Inr ?steps"
    by (cases "resolve_steps (S ''https://example.com/'') (tc_steps login_case)") simp_all
  have tid: "S ''TC-001'' = get_or (tc_id login_case) (S ''TC-???'')"
    by (simp add: login_case_def get_or_def)
  have kk: "0 < length (tc_steps login_case)" by (simp add: login_case_def)
  have kr: "0 < length (cr_steps r)" using len by simp
  have a: "s_action (tc_steps login_case ! 0) = Some (S ''goto'')"
    and t: "s_target (tc_steps login_case ! 0) = Some (S ''/login'')"
    by (simp_all add: login_case_def mk_step_def)
  have u: "S ''https://example.com/login''
             = (if startswith (S ''/login'') (S ''http'') then S ''/login''
                else if startswith (S ''/login'') (S ''/'')
                     then rstrip_ch 47 (S ''https://example.com/'') @ S ''/''
                          @ lstrip_ch 47 (S ''/login'')
                     else rstrip_ch 47 (S ''https://example.com/'') @ S ''/'')"
    by (simp add: ev)
  have wk: "world_after ascii_env ?B (S ''shots'') (S ''TC-001'') ?steps 0 ((), [NewPage False])
              = ((), [NewPage False])"
    by (simp add: world_after_def)
  have nr: "\<forall>e. fst (stuck_browser (Goto (S ''https://example.com/login'')) ()) \<noteq> Raised e"
    by (simp add: stuck_browser_def stuck_reply_def)
  note g = goto_navigates [OF h op rs tid kk kr a t u wk a t,
                           of "S ''shots''" "S ''TC-001''" 0 "()" "[]"]
  from g have 1: "r_target (cr_steps r ! 0) = S ''https://example.com/login''" by blast
  from g obtain rest where
    2: "snd (world_after ascii_env ?B (S ''shots'') (S ''TC-001'') ?steps (Suc 0)
               ((), [NewPage False]))
          = [NewPage False] @ Goto (S ''https://example.com/login'') # rest"
    and 3: "(\<forall>e. fst (stuck_browser (Goto (S ''https://example.com/login'')) ()) \<noteq> Raised e)
              \<longrightarrow> (\<exists>rest'. rest = WaitLoad 15000 # rest')"
    by blast
  from 3 nr obtain rest' where "rest = WaitLoad 15000 # rest'" by blast
  with 2 have "snd (world_after ascii_env ?B (S ''shots'') (S ''TC-001'') ?steps 1
               ((), [NewPage False]))
          = [NewPage False, Goto (S ''https://example.com/login''), WaitLoad 15000] @ rest'"
    by simp
  with 1 have "r_target (cr_steps r ! 0) = S ''https://example.com/login''
        \<and> (\<exists>rest. snd (world_after ascii_env ?B (S ''shots'') (S ''TC-001'') ?steps 1
                     ((), [NewPage False]))
             = [NewPage False, Goto (S ''https://example.com/login''), WaitLoad 15000] @ rest)"
    by blast
  then show ?thesis unfolding h prod.case sum.case .
qed

text \<open>
  Claim C7 as stated fails in its attribution: \<open>execute_step\<close> is given no base URL and
  joins nothing.  Handed the root-relative target \<open>/login\<close> it navigates to \<open>/login\<close>
  itself.  In a run of the case with the base URL \<open>https://example.com\<close> the browser is
  sent to \<open>https://example.com/login\<close> because the step that \<open>run_test_case\<close> hands to
  \<open>execute_step\<close> already carries the joined URL.
\<close>

theorem goto_navigates_counterexample:
  "snd (snd (execute_step ascii_env (logged stuck_browser) (mk_step ''goto'' ''/login'')
               (S ''shots'') (S ''TC-001'') 0 ((), [])))
     = [Goto (S ''/login''), WaitLoad 15000, Screenshot (S ''shots/TC-001_step_00_goto.png'')]
   \<and> resolve_steps (S ''https://example.com'') (tc_steps login_case)
       = Inr (mk_step ''goto'' ''https://example.com/login'' # tl (tc_steps login_case))
   \<and> (case run_test_case ascii_env (logged stuck_browser) login_case (S ''https://example.com'')
             (S ''shots'') (S ''videos'') False ((), []) of
        (Inr r, w') \<Rightarrow> take 3 (snd w')
           = [NewPage False, Goto (S ''https://example.com/login''), WaitLoad 15000]
      | (Inl e, w') \<Rightarrow> False)"
  by (simp add: ev)

section \<open>Properties of the chain resolver\<close>


lemma split_on_not_Nil [simp]: "split_on P s \<noteq> []"
  by (induction s) (auto split: list.splits)













section \<open>Properties of the regular expressions\<close>

lemma rep_greedy_cont:
  "rep_greedy P mn mx s k = Some x \<Longrightarrow> \<exists>s'. k s' = Some x"
  by (induction s arbitrary: mn mx) (auto split: if_splits option.splits)

lemma rep_lazy_cont:
  "rep_lazy P mn mx s k = Some x \<Longrightarrow> \<exists>s'. k s' = Some x"
  by (induction s arbitrary: mn mx) (auto split: if_splits option.splits)

text \<open>A successful match reaches its continuation with every group captured that
  the pattern always captures, and with none of the earlier captures lost.\<close>

lemma rmatch_caps:
  "rmatch r s c k = Some x \<Longrightarrow>
   \<exists>s' c'. k s' c' = Some x \<and> (\<forall>i. sets i r \<or> c i \<noteq> None \<longrightarrow> c' i \<noteq> None)"
proof (induction r arbitrary: s c k x)
  case Eps
  then show ?case by auto
next
  case (Lit l)
  then show ?case by (auto split: if_splits)
next
  case (Cls P)
  then show ?case by (auto split: list.splits if_splits)
next
  case (Seq a b)
  from Seq.prems have "rmatch a s c (\<lambda>s' c'. rmatch b s' c' k) = Some x" by simp
  from Seq.IH(1) [OF this] obtain s1 c1 where
    1: "rmatch b s1 c1 k = Some x" "\<forall>i. sets i a \<or> c i \<noteq> None \<longrightarrow> c1 i \<noteq> None" by blast
  from Seq.IH(2) [OF 1(1)] obtain s2 c2 where
    2: "k s2 c2 = Some x" "\<forall>i. sets i b \<or> c1 i \<noteq> None \<longrightarrow> c2 i \<noteq> None" by blast
  have "\<forall>i. sets i (Seq a b) \<or> c i \<noteq> None \<longrightarrow> c2 i \<noteq> None"
    using 1(2) 2(2) by (metis sets.simps(2))
  with 2(1) show ?case by blast
next
  case (Alt a b)
  show ?case
  proof (cases "rmatch a s c k")
    case None
    with Alt.prems have "rmatch b s c k = Some x" by simp
    from Alt.IH(2) [OF this] obtain s1 c1 where
      1: "k s1 c1 = Some x" "\<forall>i. sets i b \<or> c i \<noteq> None \<longrightarrow> c1 i \<noteq> None" by blast
    from 1(2) have "\<forall>i. sets i (Alt a b) \<or> c i \<noteq> None \<longrightarrow> c1 i \<noteq> None" by simp
    with 1(1) show ?thesis by blast
  next
    case (Some y)
    with Alt.prems have "rmatch a s c k = Some x" by simp
    from Alt.IH(1) [OF this] obtain s1 c1 where
      1: "k s1 c1 = Some x" "\<forall>i. sets i a \<or> c i \<noteq> None \<longrightarrow> c1 i \<noteq> None" by blast
    from 1(2) have "\<forall>i. sets i (Alt a b) \<or> c i \<noteq> None \<longrightarrow> c1 i \<noteq> None" by simp
    with 1(1) show ?thesis by blast
  qed
next
  case (Rep g mn mx P)
  then have "\<exists>s'. k s' c = Some x"
    by (auto split: if_splits dest: rep_greedy_cont rep_lazy_cont)
  then show ?case by auto
next
  case (Grp j a)
  from Grp.prems
  have "rmatch a s c (\<lambda>s' c'. k s' (c'(j \<mapsto> take (length s - length s') s))) = Some x"
    by simp
  from Grp.IH [OF this] obtain s1 c1 where
    1: "k s1 (c1(j \<mapsto> take (length s - length s1) s)) = Some x"
       "\<forall>i. sets i a \<or> c i \<noteq> None \<longrightarrow> c1 i \<noteq> None" by blast
  have "\<forall>i. sets i (Grp j a) \<or> c i \<noteq> None
          \<longrightarrow> (c1(j \<mapsto> take (length s - length s1) s)) i \<noteq> None"
    using 1(2) by auto
  with 1(1) show ?case by blast
next
  case Eol
  then show ?case by (auto split: if_splits)
qed

lemma re_match_sets:
  assumes "re_match r s = Some (rest, c)" and "sets i r"
  shows "c i \<noteq> None"
proof -
  from assms(1) have "rmatch r s (\<lambda>i. None) (\<lambda>s' c. Some (s', c)) = Some (rest, c)"
    by (simp add: re_match_def)
  from rmatch_caps [OF this] assms(2) show ?thesis by auto
qed

lemma re_search_sets:
  "re_search r s = Some (rest, c) \<Longrightarrow> sets i r \<Longrightarrow> c i \<noteq> None"
  by (induction s) (auto split: option.splits dest: re_match_sets)

lemma sets_seqs: "sets i (seqs rs) = list_ex (sets i) rs"
  by (induction rs rule: seqs.induct) auto

lemma ngroups_seqs: "ngroups (seqs rs) = sum_list (map ngroups rs)"
  by (induction rs rule: seqs.induct) auto

lemma sets_alts: "\<forall>r \<in> set rs. \<not> sets i r \<Longrightarrow> \<not> sets i (alts rs)"
  by (induction rs rule: alts.induct) auto

lemma ngroups_alts: "ngroups (alts rs) = sum_list (map ngroups rs)"
  by (induction rs rule: alts.induct) auto

lemma ilit_groups [simp]: "\<not> sets i (ilit E l)" "ngroups (ilit E l) = 0"
proof -
  show "\<not> sets i (ilit E l)" by (simp add: ilit_def sets_seqs list_ex_iff)
  have "sum_list (map ngroups (map (\<lambda>p. Cls (re_ieq E p)) l)) = 0"
    by (induction l) auto
  then show "ngroups (ilit E l) = 0" by (simp add: ilit_def ngroups_seqs)
qed

lemma ialts_groups [simp]: "\<not> sets i (ialts E ls)" "ngroups (ialts E ls) = 0"
proof -
  show "\<not> sets i (ialts E ls)" unfolding ialts_def by (rule sets_alts) simp
  have "sum_list (map ngroups (map (ilit E) ls)) = 0" by (induction ls) auto
  then show "ngroups (ialts E ls) = 0" by (simp add: ialts_def ngroups_alts)
qed

lemma rep_groups [simp]:
  "ngroups SP0 = 0" "ngroups SP1 = 0" "ngroups DOTS0 = 0" "ngroups DOTS1 = 0" "ngroups LAZY1 = 0"
  "ngroups (QUOTE1 E) = 0" "ngroups (OPENQ E) = 0" "ngroups (CLOSEQ E) = 0"
  "ngroups (OPTCH E c) = 0" "ngroups (CONTAINS E) = 0"
  by (simp_all add: SP0_def SP1_def DOTS0_def DOTS1_def LAZY1_def QUOTE1_def OPENQ_def
                    CLOSEQ_def OPTCH_def CONTAINS_def ngroups_seqs)

section \<open>Properties of the step inference engine\<close>

text \<open>Every pattern of the table captures group 1, and group 2 when it has two
  groups.\<close>

lemma table_groups:
  "(r, a) \<in> set (STEP_ACTION_PATTERNS E) \<Longrightarrow>
   sets 1 r \<and> 0 < ngroups r \<and> (2 \<le> ngroups r \<longrightarrow> sets 2 r)"
  by (auto simp: STEP_ACTION_PATTERNS_def sets_seqs ngroups_seqs)

lemma step_of_match_returns:
  assumes "c 1 \<noteq> None" and "0 < n" and "2 \<le> n \<longrightarrow> c 2 \<noteq> None"
  shows "\<exists>st. step_of_match a n c text = Inr st"
  using assms by (auto simp: step_of_match_def group_def)

lemma first_pass_returns:
  "first_pass ps text = Some res \<Longrightarrow>
   \<forall>(r, a) \<in> set ps. sets 1 r \<and> 0 < ngroups r \<and> (2 \<le> ngroups r \<longrightarrow> sets 2 r) \<Longrightarrow>
   \<exists>st. res = Inr st"
proof (induction ps)
  case Nil
  then show ?case by simp
next
  case (Cons p ps)
  obtain r a where p: "p = (r, a)" by (cases p)
  show ?case
  proof (cases "re_match r text")
    case None
    with Cons p show ?thesis by simp
  next
    case (Some m)
    obtain rest c where m: "m = (rest, c)" by (cases m)
    from Cons.prems(2) p have g: "sets 1 r" "0 < ngroups r" "2 \<le> ngroups r \<longrightarrow> sets 2 r"
      by auto
    from Some m g have "c 1 \<noteq> None" "2 \<le> ngroups r \<longrightarrow> c 2 \<noteq> None"
      by (auto dest: re_match_sets)
    from step_of_match_returns [OF this(1) g(2) this(2)] Cons.prems(1) p Some m
    show ?thesis by auto
  qed
qed

lemma second_pass_returns: "\<exists>st. second_pass E text = Inr st"
proof -
  have q: "sets 1 QUOTED" by (simp add: QUOTED_def)
  have "\<exists>st. (case group c 1 1 of Inl e \<Rightarrow> Inl e
                | Inr g1 \<Rightarrow> Inr (value_step (S ''fill'') SEARCH_INPUT_SELECTORS g1)) = Inr st"
    if "re_search QUOTED t = Some (rest, c)" for t rest c
    using re_search_sets [OF that q] by (auto simp: group_def)
  then show ?thesis
    by (auto simp: second_pass_def Let_def split: option.splits)
qed

lemma infer_step_returns: "\<exists>st. infer_step E raw = Inr st"
proof -
  have t: "\<forall>(r, a) \<in> set (STEP_ACTION_PATTERNS E).
             sets 1 r \<and> 0 < ngroups r \<and> (2 \<le> ngroups r \<longrightarrow> sets 2 r)"
    using table_groups by blast
  show ?thesis
    using first_pass_returns [OF _ t] second_pass_returns
    by (auto simp: infer_step_def Let_def split: option.splits)
qed

lemma strip_blank:
  assumes "list_all py_isspace raw"
  shows "strip raw = []"
proof -
  have l: "lstrip raw = []"
    unfolding lstrip_def using assms by (simp add: list_all_iff)
  show ?thesis unfolding strip_def l by (simp add: rstrip_def)
qed

text \<open>Greedy repetition in front of a continuation that cannot fail takes all it can
  and is never undone.\<close>

lemma rep_greedy_star:
  "\<forall>s'. k s' \<noteq> None \<Longrightarrow> rep_greedy P 0 None s k = k (dropWhile P s)"
proof (induction s)
  case Nil
  then show ?case by simp
next
  case (Cons x xs)
  from Cons.prems obtain r where "k (dropWhile P xs) = Some r" by auto
  with Cons show ?case by (simp add: dec_def)
qed

lemma rep_greedy_opt:
  assumes "\<forall>s'. k s' \<noteq> None"
  shows "rep_greedy P 0 (Some 1) s k = k (drop_one P s)"
proof (cases s)
  case Nil
  then show ?thesis by simp
next
  case (Cons x xs)
  have z: "rep_greedy P 0 (Some 0) xs k = k xs" by (cases xs) simp_all
  from assms obtain r where "k xs = Some r" by auto
  with Cons z show ?thesis by (simp add: dec_def)
qed

lemma rmatch_ilit:
  "rmatch (ilit E l) s c k = (if ieq_prefix E l s then k (drop (length l) s) c else None)"
proof (induction l arbitrary: s rule: induct_list012)
  case 1
  show ?case by (simp add: ilit_def ieq_prefix_def)
next
  case (2 x)
  show ?case by (cases s) (simp_all add: ilit_def ieq_prefix_def)
next
  case (3 x y zs)
  have unf: "ilit E (x # y # zs) = Seq (Cls (re_ieq E x)) (ilit E (y # zs))"
    by (simp add: ilit_def)
  have "rmatch (ilit E (x # y # zs)) s c k
          = (case s of [] \<Rightarrow> None
             | a # as \<Rightarrow> if re_ieq E x a then rmatch (ilit E (y # zs)) as c k else None)"
    unfolding unf by simp
  also have "\<dots> = (if ieq_prefix E (x # y # zs) s then k (drop (length (x # y # zs)) s) c
                   else None)"
    by (cases s) (simp_all add: 3 ieq_prefix_def)
  finally show ?case .
qed

text \<open>The marker pattern against the marker in the specification's words.\<close>

lemma marker_tail:
  "rmatch (seqs [SP0, Rep True 0 None (re_digit E),
                 Rep True 0 (Some 1) (icls E [46, 12289, 58, 65306]), SP0])
          s c (\<lambda>s' c'. Some (s', c'))
     = Some (spec_marker_rest E s, c)"
proof -
  have 1: "rmatch SP0 s1 c (\<lambda>s' c'. Some (s', c')) = Some (dropWhile py_isspace s1, c)" for s1
    by (simp add: SP0_def rep_greedy_star)
  have 2: "rmatch (Seq (Rep True 0 (Some 1) (icls E [46, 12289, 58, 65306])) SP0) s2 c
             (\<lambda>s' c'. Some (s', c'))
           = Some (dropWhile py_isspace
                     (drop_one (\<lambda>c. list_ex (\<lambda>p. re_ieq E p c) [46, 12289, 58, 65306]) s2), c)"
    for s2
  proof -
    have "rmatch (Seq (Rep True 0 (Some 1) (icls E [46, 12289, 58, 65306])) SP0) s2 c
             (\<lambda>s' c'. Some (s', c'))
          = rep_greedy (icls E [46, 12289, 58, 65306]) 0 (Some 1) s2
              (\<lambda>s'. Some (dropWhile py_isspace s', c))"
      by (simp add: 1)
    also have "\<dots> = Some (dropWhile py_isspace (drop_one (icls E [46, 12289, 58, 65306]) s2), c)"
      by (rule rep_greedy_opt) simp
    finally show ?thesis by (simp add: icls_def [abs_def])
  qed
  have 3: "rmatch (Seq (Rep True 0 None (re_digit E))
                     (Seq (Rep True 0 (Some 1) (icls E [46, 12289, 58, 65306])) SP0)) s3 c
             (\<lambda>s' c'. Some (s', c'))
           = Some (dropWhile py_isspace
                     (drop_one (\<lambda>c. list_ex (\<lambda>p. re_ieq E p c) [46, 12289, 58, 65306])
                        (dropWhile (re_digit E) s3)), c)"
    for s3
  proof -
    have "rmatch (Seq (Rep True 0 None (re_digit E))
                     (Seq (Rep True 0 (Some 1) (icls E [46, 12289, 58, 65306])) SP0)) s3 c
             (\<lambda>s' c'. Some (s', c'))
          = rep_greedy (re_digit E) 0 None s3
              (\<lambda>s'. Some (dropWhile py_isspace
                     (drop_one (\<lambda>c. list_ex (\<lambda>p. re_ieq E p c) [46, 12289, 58, 65306]) s'), c))"
      using 2 by simp
    also have "\<dots> = Some (dropWhile py_isspace
                     (drop_one (\<lambda>c. list_ex (\<lambda>p. re_ieq E p c) [46, 12289, 58, 65306])
                        (dropWhile (re_digit E) s3)), c)"
      by (rule rep_greedy_star) simp
    finally show ?thesis .
  qed
  have "rmatch (seqs [SP0, Rep True 0 None (re_digit E),
                 Rep True 0 (Some 1) (icls E [46, 12289, 58, 65306]), SP0])
          s c (\<lambda>s' c'. Some (s', c'))
        = rep_greedy py_isspace 0 None s
            (\<lambda>s'. Some (dropWhile py_isspace
                     (drop_one (\<lambda>c. list_ex (\<lambda>p. re_ieq E p c) [46, 12289, 58, 65306])
                        (dropWhile (re_digit E) s')), c))"
    using 3 by (simp add: SP0_def)
  also have "\<dots> = Some (spec_marker_rest E s, c)"
    unfolding spec_marker_rest_def by (rule rep_greedy_star) simp
  finally show ?thesis .
qed

lemma marker_removed: "sub_prefix (STEP_MARKER E) t = spec_without_marker E t"
proof -
  let ?tail = "seqs [SP0, Rep True 0 None (re_digit E),
                     Rep True 0 (Some 1) (icls E [46, 12289, 58, 65306]), SP0]"
  have "re_match (STEP_MARKER E) t
          = rmatch (Alt (ilit E [27493, 39519]) (ilit E (S ''step''))) t (\<lambda>i. None)
              (\<lambda>s' c'. rmatch ?tail s' c' (\<lambda>s' c'. Some (s', c')))"
    by (simp add: STEP_MARKER_def re_match_def ialts_def)
  also have "\<dots> = rmatch (Alt (ilit E [27493, 39519]) (ilit E (S ''step''))) t (\<lambda>i. None)
              (\<lambda>s' c'. Some (spec_marker_rest E s', c'))"
    by (simp only: marker_tail)
  also have "\<dots> = (if ieq_prefix E [27493, 39519] t
                   then Some (spec_marker_rest E (drop 2 t), \<lambda>i. None)
                   else if ieq_prefix E (S ''step'') t
                        then Some (spec_marker_rest E (drop 4 t), \<lambda>i. None)
                        else None)"
  proof -
    have n: "Suc (Suc 0) = 2" "Suc (Suc (Suc (Suc 0))) = 4" by simp_all
    show ?thesis by (simp add: rmatch_ilit S_def n)
  qed
  finally show ?thesis by (simp add: sub_prefix_def spec_without_marker_def)
qed

lemma unmarked_spec: "unmarked E raw = spec_unmarked E raw"
  by (simp add: unmarked_def spec_unmarked_def marker_removed)

lemma blank_unmarked:
  assumes "list_all py_isspace raw"
  shows "spec_unmarked E raw = []"
proof -
  have "\<not> ieq_prefix E [27493, 39519] []" "\<not> ieq_prefix E (S ''step'') []"
    by (simp_all add: ieq_prefix_def S_def)
  moreover have "strip raw = []" by (rule strip_blank [OF assms])
  moreover have "strip [] = []" by (simp add: strip_def lstrip_def rstrip_def)
  ultimately show ?thesis
    by (simp add: spec_unmarked_def spec_without_marker_def)
qed

text \<open>A marker is removed whole: whitespace, digits, at most one of the four
  punctuation characters and whitespace, in this order, leave nothing.\<close>

lemma dropWhile_drop: "\<exists>k. dropWhile P xs = drop k xs"
  using dropWhile_eq_drop by blast

lemma dropWhile_drop_append:
  assumes "list_all P ds"
  shows "\<exists>k. dropWhile P (drop j (ds @ R)) = drop k R"
proof (cases "j \<le> length ds")
  case True
  from assms have "\<forall>x \<in> set (drop j ds). P x"
    by (auto simp: list_all_iff dest: in_set_dropD)
  then have "dropWhile P (drop j ds @ R) = dropWhile P R" by (simp add: dropWhile_append2)
  with True dropWhile_drop [of P R] show ?thesis by simp
next
  case False
  then have "drop j (ds @ R) = drop (j - length ds) R" by simp
  moreover obtain k where "dropWhile P (drop (j - length ds) R) = drop k (drop (j - length ds) R)"
    using dropWhile_drop by blast
  ultimately have "dropWhile P (drop j (ds @ R)) = drop (k + (j - length ds)) R" by simp
  then show ?thesis by blast
qed

lemma drop_one_drop:
  assumes "p = [] \<or> (\<exists>c. p = [c] \<and> Q c)"
  shows "\<exists>k. drop_one Q (drop j (p @ ws)) = drop k ws"
proof -
  have tl: "\<exists>k. drop_one Q (drop i ws) = drop k ws" for i
  proof (cases "drop i ws")
    case Nil
    then show ?thesis by (metis drop_one.simps(1))
  next
    case (Cons x xs)
    then have "xs = drop (Suc i) ws" by (metis drop_Suc list.sel(3) tl_drop)
    with Cons show ?thesis by (metis drop_one.simps(2))
  qed
  from assms show ?thesis
  proof
    assume "p = []"
    with tl [of j] show ?thesis by simp
  next
    assume "\<exists>c. p = [c] \<and> Q c"
    then obtain c where c: "p = [c]" "Q c" by blast
    show ?thesis
    proof (cases j)
      case 0
      with c have "drop_one Q (drop j (p @ ws)) = drop 0 ws" by simp
      then show ?thesis by blast
    next
      case (Suc i)
      with c tl [of i] show ?thesis by simp
    qed
  qed
qed

lemma marker_rest_empty:
  assumes sp: "list_all py_isspace sp" and ds: "list_all (re_digit E) ds"
    and p: "p = [] \<or> (\<exists>c. p = [c] \<and> list_ex (\<lambda>q. re_ieq E q c) [46, 12289, 58, 65306])"
    and ws: "list_all py_isspace ws"
  shows "spec_marker_rest E (sp @ ds @ p @ ws) = []"
proof -
  let ?Q = "\<lambda>c. list_ex (\<lambda>q. re_ieq E q c) [46, 12289, 58, 65306]"
  from dropWhile_drop_append [OF sp, of 0 "ds @ p @ ws"] obtain k1 where
    1: "dropWhile py_isspace (sp @ ds @ p @ ws) = drop k1 (ds @ p @ ws)" by auto
  from dropWhile_drop_append [OF ds, of k1 "p @ ws"] obtain k2 where
    2: "dropWhile (re_digit E) (drop k1 (ds @ p @ ws)) = drop k2 (p @ ws)" by auto
  from drop_one_drop [OF p, of k2 ws] obtain k3 where
    3: "drop_one ?Q (drop k2 (p @ ws)) = drop k3 ws" by auto
  from ws have "\<forall>x \<in> set (drop k3 ws). py_isspace x"
    by (auto simp: list_all_iff dest: in_set_dropD)
  then have 4: "dropWhile py_isspace (drop k3 ws) = []" by simp
  show ?thesis unfolding spec_marker_rest_def 1 2 3 4 ..
qed

text \<open>
  Claim C4.  \<open>infer_step\<close> returns a step for every input and never raises.  When
  nothing is left of the input after stripping it, removing the leading marker (in the
  specification's words, \<open>spec_unmarked\<close>) and stripping again, the step is the sentinel
  screenshot named \<open>blank_step\<close>.  This is so for an empty or whitespace-only input, and
  for an input that, stripped, is a marker and nothing else: the step word, whitespace,
  digits, at most one of the full stop, U+3001, the colon and U+FF1A, and whitespace.
  When the text matches no rule, the step is a screenshot whose name is the first 40
  characters of the text with every character that is not a word character replaced by
  an underscore; it has at most 40 characters.
\<close>

theorem infer_step_total:
  "(\<exists>st. infer_step E raw = Inr st)
   \<and> (spec_unmarked E raw = [] \<longrightarrow> infer_step E raw = Inr (screenshot_step (S ''blank_step'')))
   \<and> (list_all py_isspace raw \<longrightarrow> infer_step E raw = Inr (screenshot_step (S ''blank_step'')))
   \<and> ((ieq_prefix E [27493, 39519] (strip raw) \<and> drop 2 (strip raw) = sp @ ds @ p @ ws
        \<or> \<not> ieq_prefix E [27493, 39519] (strip raw) \<and> ieq_prefix E (S ''step'') (strip raw)
           \<and> drop 4 (strip raw) = sp @ ds @ p @ ws)
       \<and> list_all py_isspace sp \<and> list_all (re_digit E) ds
       \<and> (p = [] \<or> (\<exists>c. p = [c] \<and> list_ex (\<lambda>q. re_ieq E q c) [46, 12289, 58, 65306]))
       \<and> list_all py_isspace ws
       \<longrightarrow> infer_step E raw = Inr (screenshot_step (S ''blank_step'')))
   \<and> (spec_unmarked E raw \<noteq> [] \<and> matches_no_rule E (rule_text E raw) \<longrightarrow>
        infer_step E raw = Inr (screenshot_step (sanitize E (take 40 (rule_text E raw))))
        \<and> length (sanitize E (take 40 (rule_text E raw))) \<le> 40
        \<and> (\<forall>c \<in> set (sanitize E (take 40 (rule_text E raw))). re_word E c \<or> c = 95))"
proof -
  have e: "strip [] = []" by (simp add: strip_def lstrip_def rstrip_def)
  have s: "infer_step E raw = Inr (screenshot_step (S ''blank_step''))"
    if "spec_unmarked E raw = []"
    using that by (simp add: infer_step_def unmarked_spec)
  have b: "infer_step E raw = Inr (screenshot_step (S ''blank_step''))"
    if "list_all py_isspace raw"
    using that by (simp add: s blank_unmarked)
  have m: "infer_step E raw = Inr (screenshot_step (S ''blank_step''))"
    if w: "ieq_prefix E [27493, 39519] (strip raw) \<and> drop 2 (strip raw) = sp @ ds @ p @ ws
        \<or> \<not> ieq_prefix E [27493, 39519] (strip raw) \<and> ieq_prefix E (S ''step'') (strip raw)
           \<and> drop 4 (strip raw) = sp @ ds @ p @ ws"
      and r: "list_all py_isspace sp" "list_all (re_digit E) ds"
         "p = [] \<or> (\<exists>c. p = [c] \<and> list_ex (\<lambda>q. re_ieq E q c) [46, 12289, 58, 65306])"
         "list_all py_isspace ws"
  proof -
    note z = marker_rest_empty [OF r]
    from w z have "spec_without_marker E (strip raw) = []"
      by (auto simp: spec_without_marker_def)
    then have "spec_unmarked E raw = []" by (simp add: spec_unmarked_def e)
    then show ?thesis by (rule s)
  qed
  have f: "infer_step E raw = Inr (screenshot_step (sanitize E (take 40 (rule_text E raw))))"
    if n: "spec_unmarked E raw \<noteq> []" and r: "matches_no_rule E (rule_text E raw)"
  proof -
    from n have "unmarked E raw \<noteq> []" by (simp add: unmarked_spec)
    with r show ?thesis
      by (simp add: infer_step_def rule_text_def matches_no_rule_def second_pass_def Let_def)
  qed
  have l: "length (sanitize E (take 40 (rule_text E raw))) \<le> 40"
    by (simp add: sanitize_def)
  have w: "\<forall>c \<in> set (sanitize E (take 40 (rule_text E raw))). re_word E c \<or> c = 95"
    by (auto simp: sanitize_def)
  from infer_step_returns s b m f l w show ?thesis by blast
qed

theorem infer_step_total_witness:
  "infer_step ascii_env (S ''  '') = Inr (screenshot_step (S ''blank_step''))
   \<and> infer_step ascii_env (S ''Step 1:'') = Inr (screenshot_step (S ''blank_step''))
   \<and> infer_step ascii_env ([32, 27493, 39519] @ S ''12. '') = Inr (screenshot_step (S ''blank_step''))
   \<and> infer_step ascii_env (S ''hello world'') = Inr (screenshot_step (S ''hello_world''))
   \<and> infer_step ascii_env (S ''the quick brown fox jumps over the lazy dog again'')
       = Inr (screenshot_step (S ''the_quick_brown_fox_jumps_over_the_lazy_''))"
proof -
  have b: "list_all py_isspace (S ''  '')" by (simp add: ev)
  from infer_step_total [of ascii_env "S ''  ''"] b
  have 1: "infer_step ascii_env (S ''  '') = Inr (screenshot_step (S ''blank_step''))"
    by blast
  have "\<not> ieq_prefix ascii_env [27493, 39519] (strip (S ''Step 1:''))
        \<and> ieq_prefix ascii_env (S ''step'') (strip (S ''Step 1:''))
        \<and> drop 4 (strip (S ''Step 1:'')) = S '' '' @ S ''1'' @ S '':'' @ []"
    by (simp add: ev)
  moreover have "list_all py_isspace (S '' '')" "list_all (re_digit ascii_env) (S ''1'')"
    "list_all py_isspace []"
    by (simp_all add: ev)
  moreover have "\<exists>c. S '':'' = [c] \<and> list_ex (\<lambda>q. re_ieq ascii_env q c) [46, 12289, 58, 65306]"
    by (simp add: ev)
  ultimately have 2: "infer_step ascii_env (S ''Step 1:'') = Inr (screenshot_step (S ''blank_step''))"
    using infer_step_total [of ascii_env "S ''Step 1:''" "S '' ''" "S ''1''" "S '':''" "[]"]
    by blast
  have "ieq_prefix ascii_env [27493, 39519] (strip ([32, 27493, 39519] @ S ''12. ''))
        \<and> drop 2 (strip ([32, 27493, 39519] @ S ''12. '')) = [] @ S ''12'' @ S ''.'' @ []"
    by (simp add: ev)
  moreover have "list_all py_isspace []" "list_all (re_digit ascii_env) (S ''12'')"
    by (simp_all add: ev)
  moreover have "\<exists>c. S ''.'' = [c] \<and> list_ex (\<lambda>q. re_ieq ascii_env q c) [46, 12289, 58, 65306]"
    by (simp add: ev)
  ultimately have 3: "infer_step ascii_env ([32, 27493, 39519] @ S ''12. '')
                        = Inr (screenshot_step (S ''blank_step''))"
    using infer_step_total [of ascii_env "[32, 27493, 39519] @ S ''12. ''" "[]" "S ''12''"
                               "S ''.''" "[]"]
    by blast
  have n: "spec_unmarked ascii_env (S ''hello world'') \<noteq> []" by (simp add: ev)
  have m: "matches_no_rule ascii_env (rule_text ascii_env (S ''hello world''))"
    by (simp add: ev)
  have s: "sanitize ascii_env (take 40 (rule_text ascii_env (S ''hello world''))) = S ''hello_world''"
    by (simp add: ev)
  from infer_step_total [of ascii_env "S ''hello world''"] n m
  have "infer_step ascii_env (S ''hello world'')
          = Inr (screenshot_step (sanitize ascii_env (take 40 (rule_text ascii_env (S ''hello world'')))))"
    by blast
  with s have 4: "infer_step ascii_env (S ''hello world'') = Inr (screenshot_step (S ''hello_world''))"
    by simp
  let ?long = "S ''the quick brown fox jumps over the lazy dog again''"
  have n': "spec_unmarked ascii_env ?long \<noteq> []" by (simp add: ev)
  have m': "matches_no_rule ascii_env (rule_text ascii_env ?long)"
    by (simp add: ev)
  have s': "sanitize ascii_env (take 40 (rule_text ascii_env ?long))
              = S ''the_quick_brown_fox_jumps_over_the_lazy_''"
    by (simp add: ev)
  from infer_step_total [of ascii_env ?long] n' m'
  have "infer_step ascii_env ?long
          = Inr (screenshot_step (sanitize ascii_env (take 40 (rule_text ascii_env ?long))))"
    by blast
  with s' have 5: "infer_step ascii_env ?long
                     = Inr (screenshot_step (S ''the_quick_brown_fox_jumps_over_the_lazy_''))"
    by simp
  from 1 2 3 4 5 show ?thesis by blast
qed

section \<open>Properties of the record extractor\<close>

text \<open>The pipe-table and the grid-table strategy, and the reading of the Word tables,
  raise nothing, because \<open>infer_step\<close> does not.\<close>

lemma collect_returns:
  "\<forall>x \<in> set xs. \<exists>v. x = Inr v \<Longrightarrow> \<exists>vs. collect xs = Inr vs"
  by (induction xs) auto

lemma infer_steps_returns: "\<exists>ss. infer_steps E seps raw = Inr ss"
  unfolding infer_steps_def using infer_step_returns by (intro collect_returns) auto

lemma infer_steps_not_Inl [simp]: "infer_steps E seps raw \<noteq> Inl e"
  using infer_steps_returns [of E seps raw] by auto

lemma table_loop_returns: "\<exists>cs. table_loop E lines in_table headers cases = Inr cs"
  by (induction lines arbitrary: in_table headers cases)
     (auto simp: Let_def split: sum.splits)

lemma grid_loop_returns: "\<exists>cs. grid_loop E blocks n cases = Inr cs"
  by (induction blocks arbitrary: n cases)
     (auto simp: Let_def split: sum.splits)

lemma docx_rows_returns: "\<exists>cs. docx_rows E rows headers cases = Inr cs"
  by (induction rows arbitrary: headers cases)
     (auto simp: Let_def split: sum.splits)

lemma docx_tables_returns: "\<exists>cs. docx_tables E tables cases = Inr cs"
proof (induction tables arbitrary: cases)
  case Nil
  then show ?case by simp
next
  case (Cons t ts)
  obtain cs where "docx_rows E t [] cases = Inr cs" using docx_rows_returns by blast
  with Cons show ?case by simp
qed

text \<open>
  Claim C6.  The pipe-table strategy and the grid-table strategy always return a list
  of cases.  \<open>parse_markdown_to_cases\<close> returns the cases of the pipe-table strategy,
  and nothing else, whenever there is at least one; otherwise the cases of the
  grid-table strategy, and nothing else, whenever there is at least one; and only
  otherwise what the section-based strategy finds (the single exploratory case when it
  finds nothing, its exception when it raises one).  The meta block is the same in all
  cases.
\<close>

theorem strategy_priority:
  "\<exists>table_cases grid_cases.
     parse_table_cases E (splitlines md) = Inr table_cases
     \<and> parse_grid_table_cases E md = Inr grid_cases
     \<and> parse_markdown_to_cases E md base_url =
         (if table_cases \<noteq> [] then
            Inr \<lparr> su_meta = detect_meta E (splitlines md) base_url, su_test_cases = table_cases \<rparr>
          else if grid_cases \<noteq> [] then
            Inr \<lparr> su_meta = detect_meta E (splitlines md) base_url, su_test_cases = grid_cases \<rparr>
          else
            (case parse_sections E (splitlines md) of
               Inl e \<Rightarrow> Inl e
             | Inr section_cases \<Rightarrow>
                 Inr \<lparr> su_meta = detect_meta E (splitlines md) base_url,
                       su_test_cases =
                         (if section_cases = []
                          then [exploratory_case (detect_meta E (splitlines md) base_url)]
                          else section_cases) \<rparr>))"
proof -
  obtain T where T: "parse_table_cases E (splitlines md) = Inr T"
    unfolding parse_table_cases_def using table_loop_returns by blast
  obtain G where G: "parse_grid_table_cases E md = Inr G"
    unfolding parse_grid_table_cases_def using grid_loop_returns by blast
  from T G show ?thesis by (simp add: parse_markdown_to_cases_def Let_def)
qed

theorem strategy_priority_witness:
  "parse_table_cases ascii_env (splitlines demo_md) = Inr [demo_table_case]
   \<and> parse_grid_table_cases ascii_env demo_md = Inr [demo_grid_case]
   \<and> (\<exists>m. parse_markdown_to_cases ascii_env demo_md []
             = Inr \<lparr> su_meta = m, su_test_cases = [demo_table_case] \<rparr>)
   \<and> parse_table_cases ascii_env (splitlines demo_grid_md) = Inr []
   \<and> (\<exists>m. parse_markdown_to_cases ascii_env demo_grid_md []
             = Inr \<lparr> su_meta = m, su_test_cases = [demo_grid_case] \<rparr>)"
proof -
  have t: "parse_table_cases ascii_env (splitlines demo_md) = Inr [demo_table_case]"
    by (simp add: ev)
  have g: "parse_grid_table_cases ascii_env demo_md = Inr [demo_grid_case]"
    by (simp add: ev)
  have t': "parse_table_cases ascii_env (splitlines demo_grid_md) = Inr []"
    by (simp add: ev)
  have g': "parse_grid_table_cases ascii_env demo_grid_md = Inr [demo_grid_case]"
    by (simp add: ev)
  from strategy_priority [of ascii_env demo_md "[]"] t g
  have 1: "\<exists>m. parse_markdown_to_cases ascii_env demo_md []
             = Inr \<lparr> su_meta = m, su_test_cases = [demo_table_case] \<rparr>"
    by auto
  from strategy_priority [of ascii_env demo_grid_md "[]"] t' g'
  have 2: "\<exists>m. parse_markdown_to_cases ascii_env demo_grid_md []
             = Inr \<lparr> su_meta = m, su_test_cases = [demo_grid_case] \<rparr>"
    by auto
  from t g t' 1 2 show ?thesis by blast
qed

text \<open>
  Claim C10.  The direct reading of the Word tables raises nothing of its own; it
  fails only when the document cannot be opened.  When \<open>parse_markdown_to_cases\<close> has
  returned a payload, \<open>main\<close> returns that payload with its list of test cases replaced
  by the cases of the direct reading whenever there is at least one, whichever
  strategy the payload came from; when the direct reading finds no case, or the
  document cannot be opened, the payload stays as it is.
\<close>

theorem docx_pass_overrides:
  assumes "parse_markdown_to_cases E md base_url = Inr payload"
  shows "(\<forall>tables. \<exists>docx_cases.
            docx_pass E (Inr tables) = Inr docx_cases
            \<and> parse_docx_main E md base_url (Inr tables)
                = Inr (if docx_cases \<noteq> [] then payload\<lparr> su_test_cases := docx_cases \<rparr>
                       else payload))
       \<and> (\<forall>e. parse_docx_main E md base_url (Inl e) = Inr payload)"
proof -
  have "\<exists>docx_cases.
            docx_pass E (Inr tables) = Inr docx_cases
            \<and> parse_docx_main E md base_url (Inr tables)
                = Inr (if docx_cases \<noteq> [] then payload\<lparr> su_test_cases := docx_cases \<rparr>
                       else payload)" for tables
  proof -
    obtain cs where "docx_pass E (Inr tables) = Inr cs"
      using docx_tables_returns [of E tables "[]"] by (auto simp: docx_pass_def)
    with assms show ?thesis by (simp add: parse_docx_main_def)
  qed
  moreover have "parse_docx_main E md base_url (Inl e) = Inr payload" for e
    using assms by (simp add: parse_docx_main_def docx_pass_def)
  ultimately show ?thesis by blast
qed

theorem docx_pass_overrides_witness:
  "(\<exists>m. parse_markdown_to_cases ascii_env demo_md []
          = Inr \<lparr> su_meta = m, su_test_cases = [demo_table_case] \<rparr>
        \<and> parse_docx_main ascii_env demo_md [] demo_doc
            = Inr \<lparr> su_meta = m, su_test_cases = [demo_docx_case] \<rparr>
        \<and> parse_docx_main ascii_env demo_md [] (Inl (S ''ModuleNotFoundError''))
            = Inr \<lparr> su_meta = m, su_test_cases = [demo_table_case] \<rparr>)"
proof -
  let ?tables = "[[[[38917, 30446, 24207], [28204, 35430, 38917, 30446],
                     [25805, 20316, 27493, 39519], [38928, 26399, 32080, 26524]],
                    [S ''1'', S ''Search'', S ''click Search'', S ''ok'']]]"
  have t: "parse_table_cases ascii_env (splitlines demo_md) = Inr [demo_table_case]"
    by (simp add: ev)
  have nt: "[demo_table_case] \<noteq> []" by simp
  let ?m = "detect_meta ascii_env (splitlines demo_md) []"
  have p: "parse_markdown_to_cases ascii_env demo_md []
             = Inr \<lparr> su_meta = ?m, su_test_cases = [demo_table_case] \<rparr>"
    using t by (simp add: parse_markdown_to_cases_def Let_def)
  have d: "docx_pass ascii_env (Inr ?tables) = Inr [demo_docx_case]"
    by (simp add: ev)
  have dd: "demo_doc = Inr ?tables" by (simp add: demo_doc_def)
  note o = docx_pass_overrides [OF p]
  from o obtain cs where
    cs: "docx_pass ascii_env (Inr ?tables) = Inr cs"
        "parse_docx_main ascii_env demo_md [] (Inr ?tables)
           = Inr (if cs \<noteq> [] then \<lparr> su_meta = ?m, su_test_cases = [demo_table_case] \<rparr>
                                       \<lparr> su_test_cases := cs \<rparr>
                  else \<lparr> su_meta = ?m, su_test_cases = [demo_table_case] \<rparr>)"
    by blast
  from cs(1) d have "cs = [demo_docx_case]" by simp
  with cs(2) dd have 1: "parse_docx_main ascii_env demo_md [] demo_doc
            = Inr \<lparr> su_meta = ?m, su_test_cases = [demo_docx_case] \<rparr>"
    by simp
  from o have 2: "parse_docx_main ascii_env demo_md [] (Inl (S ''ModuleNotFoundError''))
            = Inr \<lparr> su_meta = ?m, su_test_cases = [demo_table_case] \<rparr>"
    by blast
  from p 1 2 show ?thesis by blast
qed

end
